theory Spec2Isabelle
  imports Main
begin

text \<open>
  A model of \<^verbatim>\<open>snippet.js\<close>, the console snippet manager: its four commands (add, search,
  list, export) over one JSON file, and the properties its specification states.

  \<^item> The program's state is a \<open>world\<close>: the backing file and the two export files, the lines
    printed on the console, and the clipboard. Each command is a function from the world
    to an outcome.
  \<^item> What the user types at the prompts, the time of creation and the items that Fuse.js
    returns are arguments of the commands.
  \<^item> A collection is a list of \<open>snippet\<close> records. The backing file holds a text; loading
    parses it as JSON and reads the value as a collection. A value that is JSON but not a
    collection of records of this shape is \<open>Unrepresented\<close>, and a command that needs the
    records of such a value ends as \<open>Unmodelled\<close>: the model says nothing about it.
\<close>

section \<open>JavaScript strings\<close>

text \<open>
  A JavaScript string is modelled as a \<^typ>\<open>string\<close>: one \<^typ>\<open>char\<close> per code unit, for
  the code units below 256. The functions of this section are the built-in string
  methods that \<^verbatim>\<open>snippet.js\<close> calls, restricted to that alphabet.
\<close>

definition js_whitespace :: "char \<Rightarrow> bool" where
  \<comment> \<open>WhiteSpace and LineTerminator of ECMAScript that are below 256:
      TAB, LF, VT, FF, CR, SP, NBSP.\<close>
  "js_whitespace c \<longleftrightarrow>
     c = CHR 0x09 \<or> c = CHR 0x0A \<or> c = CHR 0x0B \<or> c = CHR 0x0C \<or> c = CHR 0x0D \<or>
     c = CHR 0x20 \<or> c = CHR 0xA0"

definition trim :: "string \<Rightarrow> string" where
  \<comment> \<open>\<^verbatim>\<open>String.prototype.trim\<close>\<close>
  "trim s = rev (dropWhile js_whitespace (rev (dropWhile js_whitespace s)))"

fun split :: "char \<Rightarrow> string \<Rightarrow> string list" where
  \<comment> \<open>\<^verbatim>\<open>s.split(c)\<close> for a one-character separator; \<^verbatim>\<open>''.split(',')\<close> is \<^verbatim>\<open>['']\<close>\<close>
  "split sep [] = [[]]"
| "split sep (c # cs) =
     (if c = sep then [] # split sep cs
      else (case split sep cs of [] \<Rightarrow> [[c]] | t # ts \<Rightarrow> (c # t) # ts))"

fun join :: "string \<Rightarrow> string list \<Rightarrow> string" where
  \<comment> \<open>\<^verbatim>\<open>xs.join(sep)\<close> on an array of strings\<close>
  "join sep [] = []"
| "join sep [x] = x"
| "join sep (x # y # ys) = x @ sep @ join sep (y # ys)"

definition truthy :: "string \<Rightarrow> bool" where
  \<comment> \<open>ToBoolean on a string: every string but the empty one\<close>
  "truthy s \<longleftrightarrow> s \<noteq> []"

definition toLowerCase :: "string \<Rightarrow> string" where
  \<comment> \<open>\<^verbatim>\<open>String.prototype.toLowerCase\<close> on code units below 256: A-Z, and the Latin-1
      capitals 0xC0-0xDE without the multiplication sign 0xD7, move up by 32.\<close>
  "toLowerCase s =
     map (\<lambda>c. let n = (of_char c :: nat) in
            if (65 \<le> n \<and> n \<le> 90) \<or> (192 \<le> n \<and> n \<le> 222 \<and> n \<noteq> 215)
            then char_of (n + 32) else c) s"

section \<open>The prompts of \<^verbatim>\<open>addSnippet\<close>\<close>

datatype validation = Accepted | Rejected string

definition validate_title :: "string \<Rightarrow> validation" where
  \<comment> \<open>\<^verbatim>\<open>validate: input => (input ? true : 'Title is required')\<close>\<close>
  "validate_title input = (if truthy input then Accepted else Rejected ''Title is required'')"

definition filter_tags :: "string \<Rightarrow> string list" where
  \<comment> \<open>\<^verbatim>\<open>filter: input => input.split(',').map(tag => tag.trim()).filter(tag => tag)\<close>\<close>
  "filter_tags input = filter (\<lambda>tag. truthy tag) (map (\<lambda>tag. trim tag) (split CHR '','' input))"

section \<open>JSON texts\<close>

text \<open>
  \<^verbatim>\<open>fs.writeJson\<close> and \<^verbatim>\<open>fs.readJson\<close> of fs-extra are \<^verbatim>\<open>JSON.stringify\<close> followed by a
  write, and a read followed by \<^verbatim>\<open>JSON.parse\<close>. This section models the two JSON functions
  of the runtime. A number is modelled by the integer that its text denotes (the Number
  that JavaScript holds below \<open>2^53\<close>, see the subsection on numbers); an object by the
  list of its members.
\<close>

datatype json =
    JNull
  | JBool bool
  | JNum int
  | JStr string
  | JArr "json list"
  | JObj "(string \<times> json) list"

subsection \<open>Numbers\<close>

text \<open>
  A Number is a double. An integer below \<open>2^53\<close> in magnitude is a double; a larger one
  denotes the nearest double, with 53 binary digits kept and a tie going to the even
  neighbour, and from \<open>2^1024 - 2^970\<close> on it denotes Infinity. \<^verbatim>\<open>parseInt\<close> returns a
  Number, and \<^verbatim>\<open>s.id === parseInt(copyId)\<close> compares two Numbers.

  In a JSON value, and in the id of a record, an integer is kept as the text has it. Below
  \<open>2^53\<close> in magnitude that integer is the Number that JavaScript holds, and its digits
  are what JavaScript prints; the ids that \<^verbatim>\<open>addSnippet\<close> gives are of this kind. From
  \<open>2^53\<close> on, which only a backing file edited by hand can bring in, JavaScript holds the
  double that the integer denotes, and prints the digits of that double, with an exponent
  from \<open>10^21\<close> on.
\<close>

function bit_length :: "int \<Rightarrow> nat" where
  "bit_length n = (if n \<le> 0 then 0 else Suc (bit_length (n div 2)))"
  by pat_completeness auto
termination by (relation "measure nat") auto

declare bit_length.simps [simp del]

definition to_double :: "int \<Rightarrow> int option" where
  \<comment> \<open>the double that an integer \<open>0 \<le> a\<close> denotes, as the integer it is equal to; \<open>None\<close> is
      Infinity\<close>
  "to_double a =
     (if a < 2 ^ 53 then Some a
      else
        (let e = bit_length a - 53;
             q = a div 2 ^ e;
             r = a mod 2 ^ e;
             q' = (if 2 ^ (e - 1) < r \<or> (r = 2 ^ (e - 1) \<and> odd q) then q + 1 else q)
         in if 2 ^ 1024 \<le> q' * 2 ^ e then None else Some (q' * 2 ^ e)))"

datatype number = NaN | Finite int | PosInfinity | NegInfinity

definition to_number :: "int \<Rightarrow> number" where
  \<comment> \<open>the Number that an integer denotes: what \<^verbatim>\<open>JSON.parse\<close> holds for an integer
      written in a text, and what \<^verbatim>\<open>parseInt\<close> returns for a run of digits\<close>
  "to_number i =
     (case to_double \<bar>i\<bar> of
        None \<Rightarrow> if i < 0 then NegInfinity else PosInfinity
      | Some d \<Rightarrow> Finite (if i < 0 then - d else d))"

subsection \<open>\<^verbatim>\<open>JSON.stringify(value, null, 2)\<close>\<close>

definition digit_char :: "nat \<Rightarrow> char" where
  "digit_char d = char_of (48 + d)"

fun digits_of :: "nat \<Rightarrow> string" where
  "digits_of n = (if n < 10 then [digit_char n] else digits_of (n div 10) @ [digit_char (n mod 10)])"

declare digits_of.simps [simp del]

definition num_str :: "int \<Rightarrow> string" where
  \<comment> \<open>Number::toString on an integer below \<open>2^53\<close> in magnitude: its digits\<close>
  "num_str i = (if i < 0 then CHR ''-'' # digits_of (nat (- i)) else digits_of (nat i))"

definition hex_char :: "nat \<Rightarrow> char" where
  "hex_char d = (if d < 10 then char_of (48 + d) else char_of (87 + d))"

definition quote_char :: "char \<Rightarrow> string" where
  \<comment> \<open>one code unit in QuoteJSONString\<close>
  "quote_char c =
     (if c = CHR 0x08 then [CHR 0x5C, CHR ''b'']
      else if c = CHR 0x09 then [CHR 0x5C, CHR ''t'']
      else if c = CHR 0x0A then [CHR 0x5C, CHR ''n'']
      else if c = CHR 0x0C then [CHR 0x5C, CHR ''f'']
      else if c = CHR 0x0D then [CHR 0x5C, CHR ''r'']
      else if c = CHR 0x22 then [CHR 0x5C, CHR 0x22]
      else if c = CHR 0x5C then [CHR 0x5C, CHR 0x5C]
      else if (of_char c :: nat) < 32
        then [CHR 0x5C, CHR ''u'', CHR ''0'', CHR ''0'',
              hex_char (of_char c div 16), hex_char (of_char c mod 16)]
      else [c])"

definition quote :: "string \<Rightarrow> string" where
  "quote s = CHR 0x22 # concat (map quote_char s) @ [CHR 0x22]"

definition spaces :: "nat \<Rightarrow> string" where
  "spaces n = replicate n CHR '' ''"

fun stringify :: "nat \<Rightarrow> json \<Rightarrow> string"
  and stringify_elements :: "nat \<Rightarrow> json list \<Rightarrow> string"
  and stringify_members :: "nat \<Rightarrow> (string \<times> json) list \<Rightarrow> string"
where
  "stringify ind JNull = ''null''"
| "stringify ind (JBool b) = (if b then ''true'' else ''false'')"
| "stringify ind (JNum n) = num_str n"
| "stringify ind (JStr s) = quote s"
| "stringify ind (JArr []) = ''[]''"
| "stringify ind (JArr (x # xs)) =
     ''['' @ [CHR 0x0A] @ stringify_elements (ind + 2) (x # xs) @ [CHR 0x0A] @ spaces ind @ '']''"
| "stringify ind (JObj []) = ''{}''"
| "stringify ind (JObj (m # ms)) =
     ''{'' @ [CHR 0x0A] @ stringify_members (ind + 2) (m # ms) @ [CHR 0x0A] @ spaces ind @ ''}''"
| "stringify_elements ind [] = []"
| "stringify_elements ind [x] = spaces ind @ stringify ind x"
| "stringify_elements ind (x # y # ys) =
     spaces ind @ stringify ind x @ '','' @ [CHR 0x0A] @ stringify_elements ind (y # ys)"
| "stringify_members ind [] = []"
| "stringify_members ind [(k, v)] = spaces ind @ quote k @ '': '' @ stringify ind v"
| "stringify_members ind ((k, v) # m # ms) =
     spaces ind @ quote k @ '': '' @ stringify ind v @ '','' @ [CHR 0x0A] @
     stringify_members ind (m # ms)"

definition JSON_stringify :: "json \<Rightarrow> string" where
  "JSON_stringify v = stringify 0 v"

subsection \<open>\<^verbatim>\<open>JSON.parse\<close>\<close>

text \<open>
  The parser returns \<open>None\<close> where \<^verbatim>\<open>JSON.parse\<close> throws a SyntaxError. The flag beside the
  value is \<open>False\<close> when the text is JSON but its value is outside \<^typ>\<open>json\<close>: a number
  with a fraction or an exponent, or a \<^verbatim>\<open>\u\<close> escape of a code unit above 255.
\<close>

definition json_ws :: "char \<Rightarrow> bool" where
  "json_ws c \<longleftrightarrow> c = CHR 0x20 \<or> c = CHR 0x09 \<or> c = CHR 0x0A \<or> c = CHR 0x0D"

definition skip_ws :: "string \<Rightarrow> string" where
  "skip_ws cs = dropWhile json_ws cs"

definition is_digit :: "char \<Rightarrow> bool" where
  "is_digit c \<longleftrightarrow> 48 \<le> (of_char c :: nat) \<and> (of_char c :: nat) \<le> 57"

definition digit_val :: "char \<Rightarrow> nat" where
  "digit_val c = of_char c - 48"

definition digits_val :: "string \<Rightarrow> nat" where
  "digits_val ds = foldl (\<lambda>a c. 10 * a + digit_val c) 0 ds"

definition hex_val :: "char \<Rightarrow> nat option" where
  "hex_val c =
     (let n = (of_char c :: nat) in
      if 48 \<le> n \<and> n \<le> 57 then Some (n - 48)
      else if 97 \<le> n \<and> n \<le> 102 then Some (n - 87)
      else if 65 \<le> n \<and> n \<le> 70 then Some (n - 55)
      else None)"

definition hex4 :: "char \<Rightarrow> char \<Rightarrow> char \<Rightarrow> char \<Rightarrow> nat option" where
  "hex4 a b c d =
     (case (hex_val a, hex_val b, hex_val c, hex_val d) of
        (Some w, Some x, Some y, Some z) \<Rightarrow> Some (((w * 16 + x) * 16 + y) * 16 + z)
      | _ \<Rightarrow> None)"

definition unescape :: "char \<Rightarrow> char option" where
  "unescape e =
     (if e = CHR 0x22 then Some CHR 0x22
      else if e = CHR 0x5C then Some CHR 0x5C
      else if e = CHR ''/'' then Some CHR ''/''
      else if e = CHR ''b'' then Some CHR 0x08
      else if e = CHR ''f'' then Some CHR 0x0C
      else if e = CHR ''n'' then Some CHR 0x0A
      else if e = CHR ''r'' then Some CHR 0x0D
      else if e = CHR ''t'' then Some CHR 0x09
      else None)"

fun parse_chars :: "string \<Rightarrow> (string \<times> bool \<times> string) option" where
  \<comment> \<open>the characters of a string literal, after its opening quote\<close>
  "parse_chars [] = None"
| "parse_chars (c # cs) =
     (if c = CHR 0x22 then Some ([], True, cs)
      else if c = CHR 0x5C then
        (case cs of
           [] \<Rightarrow> None
         | e # es \<Rightarrow>
             if e = CHR ''u'' then
               (case es of
                  h1 # h2 # h3 # h4 # rest \<Rightarrow>
                    (case hex4 h1 h2 h3 h4 of
                       None \<Rightarrow> None
                     | Some n \<Rightarrow>
                         (case parse_chars rest of
                            None \<Rightarrow> None
                          | Some (s, ok, r) \<Rightarrow>
                              if n < 256 then Some (char_of n # s, ok, r) else Some (s, False, r)))
                | _ \<Rightarrow> None)
             else
               (case unescape e of
                  None \<Rightarrow> None
                | Some x \<Rightarrow>
                    (case parse_chars es of
                       None \<Rightarrow> None
                     | Some (s, ok, r) \<Rightarrow> Some (x # s, ok, r))))
      else if (of_char c :: nat) < 32 then None
      else
        (case parse_chars cs of
           None \<Rightarrow> None
         | Some (s, ok, r) \<Rightarrow> Some (c # s, ok, r)))"

definition parse_frac :: "string \<Rightarrow> (bool \<times> string) option" where
  "parse_frac r =
     (case r of
        [] \<Rightarrow> Some (False, [])
      | c # r' \<Rightarrow>
          if c = CHR ''.'' then
            (if takeWhile is_digit r' = [] then None else Some (True, dropWhile is_digit r'))
          else Some (False, r))"

definition parse_exp :: "string \<Rightarrow> (bool \<times> string) option" where
  "parse_exp r =
     (case r of
        [] \<Rightarrow> Some (False, [])
      | c # r' \<Rightarrow>
          if c = CHR ''e'' \<or> c = CHR ''E'' then
            (let r'' = (case r' of
                          [] \<Rightarrow> r'
                        | s # t \<Rightarrow> if s = CHR ''+'' \<or> s = CHR ''-'' then t else r')
             in if takeWhile is_digit r'' = [] then None else Some (True, dropWhile is_digit r''))
          else Some (False, r))"

definition parse_number :: "string \<Rightarrow> (int \<times> bool \<times> string) option" where
  \<comment> \<open>a JSON number: the integer that its digits denote, whether it was written with no
      fraction and no exponent, and the rest of the text\<close>
  "parse_number cs =
     (let neg = (cs \<noteq> [] \<and> hd cs = CHR ''-'');
          cs1 = (if neg then tl cs else cs);
          ds = takeWhile is_digit cs1
      in if ds = [] \<or> (hd ds = CHR ''0'' \<and> 1 < length ds) then None
         else
           (case parse_frac (dropWhile is_digit cs1) of
              None \<Rightarrow> None
            | Some (has_frac, r2) \<Rightarrow>
                (case parse_exp r2 of
                   None \<Rightarrow> None
                 | Some (has_exp, r3) \<Rightarrow>
                     Some (if neg then - int (digits_val ds) else int (digits_val ds),
                           \<not> has_frac \<and> \<not> has_exp, r3))))"

fun strip_prefix :: "string \<Rightarrow> string \<Rightarrow> string option" where
  "strip_prefix [] cs = Some cs"
| "strip_prefix (p # ps) [] = None"
| "strip_prefix (p # ps) (c # cs) = (if p = c then strip_prefix ps cs else None)"

function parse_value :: "string \<Rightarrow> (json \<times> bool \<times> string) option"
  and parse_elements :: "string \<Rightarrow> (json list \<times> bool \<times> string) option"
  and parse_members :: "string \<Rightarrow> ((string \<times> json) list \<times> bool \<times> string) option"
where
  "parse_value cs =
     (case skip_ws cs of
        [] \<Rightarrow> None
      | c # r \<Rightarrow>
          if c = CHR 0x22 then
            (case parse_chars r of
               None \<Rightarrow> None
             | Some (s, ok, r') \<Rightarrow> Some (JStr s, ok, r'))
          else if c = CHR ''['' then
            (case skip_ws r of
               [] \<Rightarrow> None
             | d # r' \<Rightarrow>
                 if d = CHR '']'' then Some (JArr [], True, r')
                 else
                   (case parse_elements r of
                      None \<Rightarrow> None
                    | Some (xs, ok, r'') \<Rightarrow> Some (JArr xs, ok, r'')))
          else if c = CHR ''{'' then
            (case skip_ws r of
               [] \<Rightarrow> None
             | d # r' \<Rightarrow>
                 if d = CHR ''}'' then Some (JObj [], True, r')
                 else
                   (case parse_members r of
                      None \<Rightarrow> None
                    | Some (ms, ok, r'') \<Rightarrow> Some (JObj ms, ok, r'')))
          else if c = CHR ''t'' then
            (case strip_prefix ''rue'' r of
               None \<Rightarrow> None
             | Some r' \<Rightarrow> Some (JBool True, True, r'))
          else if c = CHR ''f'' then
            (case strip_prefix ''alse'' r of
               None \<Rightarrow> None
             | Some r' \<Rightarrow> Some (JBool False, True, r'))
          else if c = CHR ''n'' then
            (case strip_prefix ''ull'' r of
               None \<Rightarrow> None
             | Some r' \<Rightarrow> Some (JNull, True, r'))
          else
            (case parse_number (c # r) of
               None \<Rightarrow> None
             | Some (n, ok, r') \<Rightarrow> Some (JNum n, ok, r')))"
| "parse_elements cs =
     (case parse_value cs of
        None \<Rightarrow> None
      | Some (x, ok, r) \<Rightarrow>
          (case skip_ws r of
             [] \<Rightarrow> None
           | d # r' \<Rightarrow>
               if d = CHR '']'' then Some ([x], ok, r')
               else if d = CHR '','' \<and> length r' < length cs then
                 (case parse_elements r' of
                    None \<Rightarrow> None
                  | Some (xs, ok', r'') \<Rightarrow> Some (x # xs, ok \<and> ok', r''))
               else None))"
| "parse_members cs =
     (case skip_ws cs of
        [] \<Rightarrow> None
      | q # r \<Rightarrow>
          if q \<noteq> CHR 0x22 then None
          else
            (case parse_chars r of
               None \<Rightarrow> None
             | Some (k, ok1, r1) \<Rightarrow>
                 (case skip_ws r1 of
                    [] \<Rightarrow> None
                  | col # r2 \<Rightarrow>
                      if col \<noteq> CHR '':'' \<or> \<not> length r2 < length cs then None
                      else
                        (case parse_value r2 of
                           None \<Rightarrow> None
                         | Some (v, ok2, r3) \<Rightarrow>
                             (case skip_ws r3 of
                                [] \<Rightarrow> None
                              | d # r4 \<Rightarrow>
                                  if d = CHR ''}'' then Some ([(k, v)], ok1 \<and> ok2, r4)
                                  else if d = CHR '','' \<and> length r4 < length cs then
                                    (case parse_members r4 of
                                       None \<Rightarrow> None
                                     | Some (ms, ok', r5) \<Rightarrow>
                                         Some ((k, v) # ms, ok1 \<and> ok2 \<and> ok', r5))
                                  else None)))))"
  by pat_completeness auto
termination
proof (relation "measure (\<lambda>x. case x of
          Inl cs \<Rightarrow> 2 * length cs
        | Inr (Inl cs) \<Rightarrow> 2 * length cs + 1
        | Inr (Inr cs) \<Rightarrow> 2 * length cs + 1)")
  fix cs c r
  assume "skip_ws cs = c # r"
  then have "length (c # r) \<le> length cs"
    unfolding skip_ws_def by (metis length_dropWhile_le)
  then have "length r < length cs" by simp
  then show "(Inr (Inl r), Inl cs) \<in> measure (\<lambda>x. case x of
          Inl cs \<Rightarrow> 2 * length cs
        | Inr (Inl cs) \<Rightarrow> 2 * length cs + 1
        | Inr (Inr cs) \<Rightarrow> 2 * length cs + 1)"
    and "(Inr (Inr r), Inl cs) \<in> measure (\<lambda>x. case x of
          Inl cs \<Rightarrow> 2 * length cs
        | Inr (Inl cs) \<Rightarrow> 2 * length cs + 1
        | Inr (Inr cs) \<Rightarrow> 2 * length cs + 1)"
    by simp_all
qed auto

declare parse_value.simps [simp del] parse_elements.simps [simp del] parse_members.simps [simp del]

definition JSON_parse :: "string \<Rightarrow> (json \<times> bool) option" where
  "JSON_parse s =
     (case parse_value s of
        None \<Rightarrow> None
      | Some (v, ok, r) \<Rightarrow> if skip_ws r = [] then Some (v, ok) else None)"

definition delimited :: "string \<Rightarrow> bool" where
  \<comment> \<open>what follows a value inside a text written by \<^const>\<open>stringify\<close>\<close>
  "delimited r \<longleftrightarrow> (case r of [] \<Rightarrow> True | c # _ \<Rightarrow> c = CHR '','' \<or> c = CHR 0x0A)"

section \<open>Snippet records and the store\<close>

record snippet =
  id' :: int
  title :: string
  code :: string
  language :: string
  tags :: "string list"
  category :: string
  description :: string
  createdAt :: string

definition snippet_json :: "snippet \<Rightarrow> json" where
  \<comment> \<open>the object \<^verbatim>\<open>{ id, ...answers, createdAt }\<close>, its keys in the order of creation\<close>
  "snippet_json s =
     JObj [(''id'', JNum (id' s)), (''title'', JStr (title s)), (''code'', JStr (code s)),
           (''language'', JStr (language s)), (''tags'', JArr (map JStr (tags s))),
           (''category'', JStr (category s)), (''description'', JStr (description s)),
           (''createdAt'', JStr (createdAt s))]"

definition snippets_json :: "snippet list \<Rightarrow> json" where
  "snippets_json ss = JArr (map snippet_json ss)"

definition num_of :: "json \<Rightarrow> int option" where
  "num_of j = (case j of JNum n \<Rightarrow> Some n | _ \<Rightarrow> None)"

definition str_of :: "json \<Rightarrow> string option" where
  "str_of j = (case j of JStr s \<Rightarrow> Some s | _ \<Rightarrow> None)"

definition strs_of :: "json \<Rightarrow> string list option" where
  "strs_of j = (case j of JArr xs \<Rightarrow> those (map str_of xs) | _ \<Rightarrow> None)"

definition json_snippet :: "json \<Rightarrow> snippet option" where
  \<comment> \<open>the record a JSON value stands for, if it is an object of the shape above\<close>
  "json_snippet j =
     (case j of
        JObj ms \<Rightarrow>
          if map fst ms = [''id'', ''title'', ''code'', ''language'', ''tags'', ''category'',
                           ''description'', ''createdAt'']
          then
            (case (num_of (snd (ms ! 0)), str_of (snd (ms ! 1)), str_of (snd (ms ! 2)),
                   str_of (snd (ms ! 3)), strs_of (snd (ms ! 4)), str_of (snd (ms ! 5)),
                   str_of (snd (ms ! 6)), str_of (snd (ms ! 7))) of
               (Some i, Some t, Some c, Some l, Some ts, Some cat, Some d, Some at) \<Rightarrow>
                 Some \<lparr>id' = i, title = t, code = c, language = l, tags = ts, category = cat,
                       description = d, createdAt = at\<rparr>
             | _ \<Rightarrow> None)
          else None
      | _ \<Rightarrow> None)"

definition json_snippets :: "json \<Rightarrow> snippet list option" where
  "json_snippets j = (case j of JArr xs \<Rightarrow> those (map json_snippet xs) | _ \<Rightarrow> None)"

text \<open>
  The three files the program touches, the console and the clipboard. \<open>SNIPPET_FILE\<close> is
  \<^verbatim>\<open>.snippets.json\<close> in the home directory, which is taken as given; the export files are
  \<^verbatim>\<open>snippets-export.json\<close> and \<^verbatim>\<open>snippets-export.md\<close> in the working directory. A file is
  absent, or present with its permissions and its text. Reading an absent file fails with
  ENOENT and reading or writing without the permission with EACCES; writing an absent file
  creates it.
\<close>

datatype path = SNIPPET_FILE | EXPORT_JSON | EXPORT_MD

datatype file_entry = Absent | File (readable: bool) (writable: bool) (content: string)

datatype error = ENOENT | EACCES | SyntaxError

datatype colour = Plain | Green | Yellow | Cyan | Red

record world =
  files :: "path \<Rightarrow> file_entry"
  console :: "(colour \<times> string) list"
  clipboard :: "string option"

definition readFile :: "file_entry \<Rightarrow> error + string" where
  "readFile f =
     (case f of
        Absent \<Rightarrow> Inl ENOENT
      | File r w s \<Rightarrow> if r then Inr s else Inl EACCES)"

definition writeFile :: "file_entry \<Rightarrow> string \<Rightarrow> error + file_entry" where
  "writeFile f s =
     (case f of
        Absent \<Rightarrow> Inr (File True True s)
      | File r w old \<Rightarrow> if w then Inr (File r w s) else Inl EACCES)"

text \<open>
  What \<^verbatim>\<open>loadSnippets\<close> hands to its caller: a collection of records, or a JavaScript value
  that is not one (the operations are modelled on collections of records only).
\<close>

datatype loaded = Records "snippet list" | Unrepresented

definition readJson :: "file_entry \<Rightarrow> error + loaded" where
  \<comment> \<open>\<^verbatim>\<open>fs.readJson\<close>: the read or the parse may throw; the value parsed, as a collection\<close>
  "readJson f =
     (case readFile f of
        Inl e \<Rightarrow> Inl e
      | Inr s \<Rightarrow>
          (case JSON_parse s of
             None \<Rightarrow> Inl SyntaxError
           | Some (j, exact) \<Rightarrow>
               Inr (if exact
                    then (case json_snippets j of Some ss \<Rightarrow> Records ss | None \<Rightarrow> Unrepresented)
                    else Unrepresented)))"

definition loadSnippets :: "world \<Rightarrow> error + loaded" where
  \<comment> \<open>\<^verbatim>\<open>try { return await fs.readJson(SNIPPET_FILE); } catch { return []; }\<close>\<close>
  "loadSnippets w =
     (case readJson (files w SNIPPET_FILE) of
        Inr v \<Rightarrow> Inr v
      | Inl e \<Rightarrow> Inr (Records []))"

fun load_repeatedly :: "nat \<Rightarrow> world \<Rightarrow> (error + loaded) list" where
  \<comment> \<open>the results of \<open>n\<close> calls in a row; a call changes nothing in the world\<close>
  "load_repeatedly 0 w = []"
| "load_repeatedly (Suc n) w = loadSnippets w # load_repeatedly n w"

definition log :: "colour \<Rightarrow> string \<Rightarrow> world \<Rightarrow> world" where
  \<comment> \<open>\<^verbatim>\<open>console.log(chalk.colour(s))\<close>\<close>
  "log c s w = w\<lparr>console := console w @ [(c, s)]\<rparr>"

definition writeJson :: "path \<Rightarrow> json \<Rightarrow> world \<Rightarrow> error + world" where
  \<comment> \<open>\<^verbatim>\<open>fs.writeJson(p, j, { spaces: 2 })\<close>: the text ends with a line feed\<close>
  "writeJson p j w =
     (case writeFile (files w p) (JSON_stringify j @ [CHR 0x0A]) of
        Inl e \<Rightarrow> Inl e
      | Inr f \<Rightarrow> Inr (w\<lparr>files := (files w)(p := f)\<rparr>))"

definition saveSnippets :: "snippet list \<Rightarrow> world \<Rightarrow> error + world" where
  "saveSnippets snippets w =
     (case writeJson SNIPPET_FILE (snippets_json snippets) w of
        Inl e \<Rightarrow> Inl e
      | Inr w' \<Rightarrow> Inr (log Green ''Snippets saved!'' w'))"

text \<open>
  How a command ends: it completes, it throws, it is still asking for a title, or the store
  holds a value on which the operations are not modelled.
\<close>

datatype outcome = Completed world | Threw error world | Waiting world | Unmodelled

section \<open>Add\<close>

record add_input =
  title_inputs :: "string list"
  code_input :: string
  language_input :: string
  tags_input :: string
  category_input :: string
  description_input :: string
  now :: string

fun ask_title :: "string list \<Rightarrow> string list \<times> string option" where
  \<comment> \<open>the title prompt asks again after each rejected input; the messages it showed, and
      the first input that passed\<close>
  "ask_title [] = ([], None)"
| "ask_title (input # later) =
     (case validate_title input of
        Accepted \<Rightarrow> ([], Some input)
      | Rejected msg \<Rightarrow> (msg # fst (ask_title later), snd (ask_title later)))"

definition with_default :: "string \<Rightarrow> string \<Rightarrow> string" where
  \<comment> \<open>an input prompt with a \<^verbatim>\<open>default\<close>\<close>
  "with_default d input = (if truthy input then input else d)"

definition dq :: string where
  "dq = [CHR 0x22]"

definition pushed :: "snippet list \<Rightarrow> string \<Rightarrow> add_input \<Rightarrow> snippet" where
  \<comment> \<open>the object that \<^verbatim>\<open>addSnippet\<close> pushes:
      \<^verbatim>\<open>{ id: snippets.length + 1, ...answers, createdAt: new Date().toISOString() }\<close>,
      where \<open>answer\<close> is the title that passed the validator\<close>
  "pushed snippets answer inp =
     \<lparr>id' = int (length snippets) + 1,
      title = answer,
      code = code_input inp,
      language = with_default ''javascript'' (language_input inp),
      tags = filter_tags (tags_input inp),
      category = with_default ''General'' (category_input inp),
      description = description_input inp,
      createdAt = now inp\<rparr>"

definition addSnippet :: "add_input \<Rightarrow> world \<Rightarrow> outcome" where
  "addSnippet inp w =
     (case snd (ask_title (title_inputs inp)) of
        None \<Rightarrow> Waiting w
      | Some answer \<Rightarrow>
          (case loadSnippets w of
             Inl e \<Rightarrow> Threw e w
           | Inr Unrepresented \<Rightarrow> Unmodelled
           | Inr (Records snippets) \<Rightarrow>
               (case saveSnippets (snippets @ [pushed snippets answer inp]) w of
                  Inl e \<Rightarrow> Threw e w
                | Inr w' \<Rightarrow>
                    Completed (log Green (''Snippet '' @ dq @ answer @ dq @ '' added!'') w'))))"

section \<open>Search\<close>

definition hex_digit_val :: "char \<Rightarrow> nat" where
  "hex_digit_val c = (case hex_val c of Some n \<Rightarrow> n | None \<Rightarrow> 0)"

definition parseInt :: "string \<Rightarrow> number" where
  \<comment> \<open>\<^verbatim>\<open>parseInt(s)\<close> with no radix: leading white space, a sign, \<^verbatim>\<open>0x\<close> for base 16, then
      the longest run of digits, and the Number that this integer denotes\<close>
  "parseInt input =
     (let s = dropWhile js_whitespace input;
          neg = (s \<noteq> [] \<and> hd s = CHR ''-'');
          s1 = (if s \<noteq> [] \<and> (hd s = CHR ''+'' \<or> hd s = CHR ''-'') then tl s else s);
          hex = (case s1 of
                   a # b # _ \<Rightarrow> a = CHR ''0'' \<and> (b = CHR ''x'' \<or> b = CHR ''X'')
                 | _ \<Rightarrow> False);
          z = (if hex then takeWhile (\<lambda>c. hex_val c \<noteq> None) (drop 2 s1)
               else takeWhile is_digit s1);
          n = (if hex then foldl (\<lambda>a c. 16 * a + hex_digit_val c) 0 z else digits_val z)
      in if z = [] then NaN else to_number (if neg then - int n else int n))"

definition or_None :: "string \<Rightarrow> string" where
  \<comment> \<open>\<^verbatim>\<open>snippet.description || 'None'\<close>\<close>
  "or_None d = (if truthy d then d else ''None'')"

definition print_found :: "world \<Rightarrow> snippet \<Rightarrow> world" where
  \<comment> \<open>the body of \<^verbatim>\<open>results.forEach\<close> in \<^verbatim>\<open>searchSnippets\<close>\<close>
  "print_found w snippet =
     log Plain ''---''
       (log Plain (''  Code:'' @ [CHR 0x0A] @ code snippet)
         (log Plain (''  Description: '' @ or_None (description snippet))
           (log Plain (''  Tags: '' @ join '', '' (tags snippet))
             (log Plain (''  Category: '' @ category snippet)
               (log Cyan (''['' @ num_str (id' snippet) @ ''] '' @ title snippet @
                          '' ('' @ language snippet @ '')'') w)))))"

definition searchSnippets ::
    "(snippet list \<Rightarrow> string \<Rightarrow> snippet list) \<Rightarrow> string \<Rightarrow> string \<Rightarrow> world \<Rightarrow> outcome" where
  \<comment> \<open>\<open>fuse snippets query\<close> stands for the items that Fuse.js finds; \<open>copyId\<close> is the answer
      to the prompt, which is asked only after a listing; \<^verbatim>\<open>s.id\<close> is the Number of the id\<close>
  "searchSnippets fuse query copyId w =
     (case loadSnippets w of
        Inl e \<Rightarrow> Threw e w
      | Inr Unrepresented \<Rightarrow> Unmodelled
      | Inr (Records snippets) \<Rightarrow>
          (let results = fuse snippets query in
           if length results = 0 then Completed (log Yellow ''No snippets found.'' w)
           else
             (let w1 = foldl print_found w results in
              if truthy copyId then
                (case find (\<lambda>s. to_number (id' s) = parseInt copyId) snippets of
                   Some snippet \<Rightarrow>
                     Completed
                       (log Green (''Snippet '' @ dq @ title snippet @ dq @ '' copied to clipboard!'')
                          (w1\<lparr>clipboard := Some (code snippet)\<rparr>))
                 | None \<Rightarrow> Completed (log Red ''Invalid snippet ID.'' w1))
              else Completed w1)))"

section \<open>List\<close>

record list_options =
  opt_lang :: "string option"
  opt_category :: "string option"

definition list_filter :: "list_options \<Rightarrow> snippet list \<Rightarrow> snippet list" where
  \<comment> \<open>\<^verbatim>\<open>filtered\<close> after the two \<^verbatim>\<open>if\<close> statements; an option that was not given is \<open>None\<close>\<close>
  "list_filter options snippets =
     (let filtered = snippets;
          filtered =
            (case opt_lang options of
               Some lang \<Rightarrow>
                 if truthy lang
                 then filter (\<lambda>s. toLowerCase (language s) = toLowerCase lang) filtered
                 else filtered
             | None \<Rightarrow> filtered)
      in (case opt_category options of
            Some cat \<Rightarrow>
              if truthy cat
              then filter (\<lambda>s. toLowerCase (category s) = toLowerCase cat) filtered
              else filtered
          | None \<Rightarrow> filtered))"

definition print_listed :: "world \<Rightarrow> snippet \<Rightarrow> world" where
  \<comment> \<open>the body of \<^verbatim>\<open>filtered.forEach\<close> in \<^verbatim>\<open>listSnippets\<close>\<close>
  "print_listed w snippet =
     log Plain ''---''
       (log Plain (''  Tags: '' @ join '', '' (tags snippet))
         (log Plain (''  Category: '' @ category snippet)
           (log Cyan (''['' @ num_str (id' snippet) @ ''] '' @ title snippet @
                      '' ('' @ language snippet @ '')'') w)))"

definition listSnippets :: "list_options \<Rightarrow> world \<Rightarrow> outcome" where
  "listSnippets options w =
     (case loadSnippets w of
        Inl e \<Rightarrow> Threw e w
      | Inr Unrepresented \<Rightarrow> Unmodelled
      | Inr (Records snippets) \<Rightarrow>
          (let filtered = list_filter options snippets in
           if length filtered = 0 then Completed (log Yellow ''No snippets found.'' w)
           else Completed (foldl print_listed w filtered)))"

section \<open>Export\<close>

definition md_append :: "string \<Rightarrow> snippet \<Rightarrow> string" where
  \<comment> \<open>the body of \<^verbatim>\<open>snippets.forEach\<close> in \<^verbatim>\<open>exportSnippets\<close>: six \<^verbatim>\<open>markdown += ...\<close>\<close>
  "md_append markdown snippet =
     markdown
       @ (''## '' @ title snippet @ [CHR 0x0A])
       @ (''- **Language**: '' @ language snippet @ [CHR 0x0A])
       @ (''- **Category**: '' @ category snippet @ [CHR 0x0A])
       @ (''- **Tags**: '' @ join '', '' (tags snippet) @ [CHR 0x0A])
       @ (''- **Description**: '' @ or_None (description snippet) @ [CHR 0x0A])
       @ (''```'' @ language snippet @ [CHR 0x0A] @ code snippet @ [CHR 0x0A] @ ''```''
            @ [CHR 0x0A, CHR 0x0A])"

definition write_to :: "path \<Rightarrow> string \<Rightarrow> world \<Rightarrow> error + world" where
  \<comment> \<open>\<^verbatim>\<open>fs.writeFile(p, s)\<close>\<close>
  "write_to p s w =
     (case writeFile (files w p) s of
        Inl e \<Rightarrow> Inl e
      | Inr f \<Rightarrow> Inr (w\<lparr>files := (files w)(p := f)\<rparr>))"

definition exportSnippets :: "string \<Rightarrow> world \<Rightarrow> outcome" where
  "exportSnippets format w =
     (case loadSnippets w of
        Inl e \<Rightarrow> Threw e w
      | Inr v \<Rightarrow>
          if format = ''json'' then
            (case v of
               Unrepresented \<Rightarrow> Unmodelled
             | Records snippets \<Rightarrow>
                 (case writeJson EXPORT_JSON (snippets_json snippets) w of
                    Inl e \<Rightarrow> Threw e w
                  | Inr w' \<Rightarrow>
                      Completed (log Green ''Snippets exported to snippets-export.json'' w')))
          else if format = ''markdown'' then
            (case v of
               Unrepresented \<Rightarrow> Unmodelled
             | Records snippets \<Rightarrow>
                 (let markdown = foldl md_append (''# Code Snippets'' @ [CHR 0x0A, CHR 0x0A]) snippets
                  in case write_to EXPORT_MD markdown w of
                       Inl e \<Rightarrow> Threw e w
                     | Inr w' \<Rightarrow>
                         Completed (log Green ''Snippets exported to snippets-export.md'' w')))
          else
            Completed
              (log Red (''Unsupported format. Use '' @ dq @ ''json'' @ dq @ '' or '' @ dq @
                        ''markdown'' @ dq @ ''.'') w))"

text \<open>The markdown document as the specification words it: a title line, then one section
  per record, in the order of the collection.\<close>

definition markdown_section :: "snippet \<Rightarrow> string" where
  "markdown_section s =
     ''## '' @ title s @ [CHR 0x0A] @
     ''- **Language**: '' @ language s @ [CHR 0x0A] @
     ''- **Category**: '' @ category s @ [CHR 0x0A] @
     ''- **Tags**: '' @ join '', '' (tags s) @ [CHR 0x0A] @
     ''- **Description**: '' @ (if description s = [] then ''None'' else description s) @ [CHR 0x0A] @
     ''```'' @ language s @ [CHR 0x0A] @ code s @ [CHR 0x0A] @ ''```'' @ [CHR 0x0A] @
     [CHR 0x0A]"

definition markdown_document :: "snippet list \<Rightarrow> string" where
  "markdown_document ss = ''# Code Snippets'' @ [CHR 0x0A, CHR 0x0A] @ concat (map markdown_section ss)"

section \<open>Sequences of commands\<close>

datatype command =
    CmdAdd add_input
  | CmdSearch string string
  | CmdList list_options
  | CmdExport string

fun run :: "(snippet list \<Rightarrow> string \<Rightarrow> snippet list) \<Rightarrow> command \<Rightarrow> world \<Rightarrow> outcome" where
  "run fuse (CmdAdd inp) w = addSnippet inp w"
| "run fuse (CmdSearch query copyId) w = searchSnippets fuse query copyId w"
| "run fuse (CmdList options) w = listSnippets options w"
| "run fuse (CmdExport format) w = exportSnippets format w"

definition world_after :: "outcome \<Rightarrow> world option" where
  \<comment> \<open>the world that a command leaves to the next one\<close>
  "world_after out =
     (case out of
        Completed w \<Rightarrow> Some w
      | Threw e w \<Rightarrow> Some w
      | Waiting w \<Rightarrow> Some w
      | Unmodelled \<Rightarrow> None)"

fun run_all :: "(snippet list \<Rightarrow> string \<Rightarrow> snippet list) \<Rightarrow> command list \<Rightarrow> world \<Rightarrow> world option" where
  "run_all fuse [] w = Some w"
| "run_all fuse (c # cs) w =
     (case world_after (run fuse c w) of
        None \<Rightarrow> None
      | Some w' \<Rightarrow> run_all fuse cs w')"

definition ids_increasing :: "snippet list \<Rightarrow> bool" where
  \<comment> \<open>pairwise distinct, and strictly increasing in the order of insertion\<close>
  "ids_increasing ss \<longleftrightarrow> distinct (map id' ss) \<and> sorted_wrt (<) (map id' ss)"

definition ids_sequential :: "snippet list \<Rightarrow> bool" where
  \<comment> \<open>the record at position \<open>i\<close> (from 1) has id \<open>i\<close>\<close>
  "ids_sequential ss \<longleftrightarrow> map id' ss = map int [1 ..< length ss + 1]"

section \<open>Observations and example data\<close>

definition can_read :: "file_entry \<Rightarrow> bool" where
  "can_read f \<longleftrightarrow> (case f of Absent \<Rightarrow> False | File r w s \<Rightarrow> r)"

definition can_write :: "file_entry \<Rightarrow> bool" where
  \<comment> \<open>a write creates an absent file\<close>
  "can_write f \<longleftrightarrow> (case f of Absent \<Rightarrow> True | File r w s \<Rightarrow> w)"

definition after_write :: "file_entry \<Rightarrow> string \<Rightarrow> file_entry" where
  \<comment> \<open>the file after a write that succeeded: created if absent, its permissions kept\<close>
  "after_write f s = (case f of Absent \<Rightarrow> File True True s | File r w old \<Rightarrow> File r w s)"

definition text_of :: "file_entry \<Rightarrow> string option" where
  "text_of f = (case f of Absent \<Rightarrow> None | File r w s \<Rightarrow> Some s)"

definition fresh :: world where
  \<comment> \<open>no file yet, nothing printed, an empty clipboard\<close>
  "fresh = \<lparr>files = (\<lambda>p. Absent), console = [], clipboard = None\<rparr>"

definition holding :: "snippet list \<Rightarrow> world" where
  \<comment> \<open>a world whose backing file holds the collection, as \<^const>\<open>saveSnippets\<close> writes it\<close>
  "holding ss =
     \<lparr>files = (\<lambda>p. Absent)(SNIPPET_FILE := File True True (JSON_stringify (snippets_json ss) @ [CHR 0x0A])),
      console = [], clipboard = None\<rparr>"

definition example_snippet :: "int \<Rightarrow> string \<Rightarrow> string \<Rightarrow> string \<Rightarrow> snippet" where
  "example_snippet i t l c =
     \<lparr>id' = i, title = t, code = ''f(x)'', language = l, tags = [''utils'', ''js''], category = c,
      description = [], createdAt = ''2024-01-01T00:00:00.000Z''\<rparr>"

definition example_input :: "string list \<Rightarrow> add_input" where
  "example_input titles =
     \<lparr>title_inputs = titles, code_input = ''f(x)'', language_input = [],
      tags_input = ''utils, js'', category_input = [], description_input = [],
      now = ''2024-01-01T00:00:00.000Z''\<rparr>"

definition listed_lines :: "snippet \<Rightarrow> (colour \<times> string) list" where
  \<comment> \<open>what List prints for one record\<close>
  "listed_lines s =
     [(Cyan, ''['' @ num_str (id' s) @ ''] '' @ title s @ '' ('' @ language s @ '')''),
      (Plain, ''  Category: '' @ category s),
      (Plain, ''  Tags: '' @ join '', '' (tags s)),
      (Plain, ''---'')]"

definition found_lines :: "snippet \<Rightarrow> (colour \<times> string) list" where
  \<comment> \<open>what Search prints for one record\<close>
  "found_lines s =
     [(Cyan, ''['' @ num_str (id' s) @ ''] '' @ title s @ '' ('' @ language s @ '')''),
      (Plain, ''  Category: '' @ category s),
      (Plain, ''  Tags: '' @ join '', '' (tags s)),
      (Plain, ''  Description: '' @ (if description s = [] then ''None'' else description s)),
      (Plain, ''  Code:'' @ [CHR 0x0A] @ code s),
      (Plain, ''---'')]"


definition ci_equal :: "string \<Rightarrow> string \<Rightarrow> bool" where
  \<comment> \<open>equal when case is ignored\<close>
  "ci_equal a b \<longleftrightarrow> toLowerCase a = toLowerCase b"

definition list_as_claimed :: "list_options \<Rightarrow> snippet list \<Rightarrow> snippet list" where
  \<comment> \<open>the records the specification says List keeps: every filter that was supplied is
      applied\<close>
  "list_as_claimed options snippets =
     filter (\<lambda>s. (case opt_lang options of None \<Rightarrow> True | Some lang \<Rightarrow> ci_equal (language s) lang)
              \<and> (case opt_category options of None \<Rightarrow> True | Some cat \<Rightarrow> ci_equal (category s) cat))
       snippets"

definition list_kept :: "list_options \<Rightarrow> snippet list \<Rightarrow> snippet list" where
  \<comment> \<open>the same, with a filter applied only when it was supplied and is not the empty string\<close>
  "list_kept options snippets =
     filter (\<lambda>s. (case opt_lang options of
                     None \<Rightarrow> True
                   | Some lang \<Rightarrow> if lang = [] then True else ci_equal (language s) lang)
              \<and> (case opt_category options of
                     None \<Rightarrow> True
                   | Some cat \<Rightarrow> if cat = [] then True else ci_equal (category s) cat))
       snippets"

section \<open>The parser consumes its input\<close>

lemma length_skip_ws: "length (skip_ws cs) \<le> length cs"
  by (simp add: skip_ws_def length_dropWhile_le)

lemma skip_ws_Cons_shorter: "skip_ws cs = c # r \<Longrightarrow> length r < length cs"
  using length_skip_ws[of cs] by simp

lemma parse_chars_shorter: "parse_chars cs = Some (s, ok, r) \<Longrightarrow> length r < length cs"
proof (induction cs arbitrary: s ok r rule: parse_chars.induct)
  case 1
  then show ?case by simp
next
  case (2 c cs)
  then show ?case
    by (auto split: if_splits list.splits option.splits prod.splits) fastforce+
qed

lemma strip_prefix_shorter: "strip_prefix p cs = Some r \<Longrightarrow> length r \<le> length cs"
  by (induction p cs rule: strip_prefix.induct) (auto split: if_splits)

lemma parse_frac_shorter: "parse_frac cs = Some (b, r) \<Longrightarrow> length r \<le> length cs"
  by (cases cs) (auto simp: parse_frac_def split: if_splits intro: le_SucI length_dropWhile_le)

lemma parse_exp_shorter:
  assumes a: "parse_exp cs = Some (b, r)"
  shows "length r \<le> length cs"
proof (cases cs)
  case Nil
  with a show ?thesis by (simp add: parse_exp_def)
next
  case (Cons c r')
  show ?thesis
  proof (cases "c = CHR ''e'' \<or> c = CHR ''E''")
    case False
    with a Cons show ?thesis by (auto simp: parse_exp_def)
  next
    case True
    define r'' where "r'' = (case r' of [] \<Rightarrow> r' | s # t \<Rightarrow> if s = CHR ''+'' \<or> s = CHR ''-'' then t else r')"
    have "length r'' \<le> length r'" by (auto simp: r''_def split: list.splits)
    moreover have "r = dropWhile is_digit r''"
      using a Cons True by (auto simp: parse_exp_def r''_def Let_def split: if_splits)
    ultimately show ?thesis
      using Cons length_dropWhile_le[of is_digit r''] by simp
  qed
qed

lemma parse_number_shorter:
  assumes "parse_number cs = Some (n, ok, r)"
  shows "length r < length cs"
proof -
  define cs1 where "cs1 = (if cs \<noteq> [] \<and> hd cs = CHR ''-'' then tl cs else cs)"
  have ne: "takeWhile is_digit cs1 \<noteq> []"
    using assms by (auto simp: parse_number_def cs1_def Let_def split: if_splits)
  have "length (takeWhile is_digit cs1) + length (dropWhile is_digit cs1) = length cs1"
    by (metis length_append takeWhile_dropWhile_id)
  with ne have 1: "length (dropWhile is_digit cs1) < length cs1"
    by (cases "takeWhile is_digit cs1") auto
  have 2: "length cs1 \<le> length cs" by (auto simp: cs1_def)
  from assms obtain fr where fr: "parse_frac (dropWhile is_digit cs1) = Some fr"
    by (cases "parse_frac (dropWhile is_digit cs1)")
      (auto simp: parse_number_def cs1_def Let_def split: if_splits)
  obtain b1 r2 where fr': "fr = (b1, r2)" by (cases fr)
  from assms fr fr' obtain ex where ex: "parse_exp r2 = Some ex"
    by (cases "parse_exp r2") (auto simp: parse_number_def cs1_def Let_def split: if_splits)
  obtain b2 r3 where ex': "ex = (b2, r3)" by (cases ex)
  from assms fr fr' ex ex' have "r = r3"
    by (auto simp: parse_number_def cs1_def Let_def split: if_splits)
  then show ?thesis
    using parse_frac_shorter[of "dropWhile is_digit cs1" b1 r2] parse_exp_shorter[of r2 b2 r3]
      fr fr' ex ex' 1 2 by simp
qed


lemma parse_shorter:
  "parse_value cs = Some (v, ok, r) \<Longrightarrow> length r < length cs"
  "parse_elements cs = Some (xs, ok1, r1) \<Longrightarrow> length r1 < length cs"
  "parse_members cs = Some (ms, ok2, r2) \<Longrightarrow> length r2 < length cs"
proof (induction cs and cs and cs arbitrary: v ok r and xs ok1 r1 and ms ok2 r2
    rule: parse_value_parse_elements_parse_members.induct)
  case (1 cs)
  from 1(3) obtain c t where ct: "skip_ws cs = c # t"
    by (subst (asm) parse_value.simps) (auto split: list.splits)
  then have lt: "length t < length cs" by (rule skip_ws_Cons_shorter)
  have ltt: "\<And>d t'. skip_ws t = d # t' \<Longrightarrow> length t' < length cs"
    using lt skip_ws_Cons_shorter by fastforce
  show ?case
    using 1(3) ct lt ltt 1(1)[OF ct] 1(2)[OF ct]
    apply (subst (asm) parse_value.simps)
    apply (auto split: list.splits if_splits option.splits prod.splits
        dest!: parse_chars_shorter strip_prefix_shorter parse_number_shorter)
     apply (metis less_trans)+
    done
next
  case (2 cs)
  note p = 2(3)[unfolded parse_elements.simps[of cs]]
  from p obtain x ok r where pv: "parse_value cs = Some (x, ok, r)"
    by (cases "parse_value cs") auto
  have 1: "length r < length cs" using 2(1)[OF pv] .
  from p pv obtain d r' where sk: "skip_ws r = d # r'"
    by (cases "skip_ws r") auto
  then have 2: "length r' < length r" by (rule skip_ws_Cons_shorter)
  show ?case
  proof (cases "d = CHR '']''")
    case True
    with p pv sk have "r1 = r'" by simp
    with 1 2 show ?thesis by simp
  next
    case False
    with p pv sk have g: "d = CHR '','' \<and> length r' < length cs"
      by (auto split: if_splits)
    with p pv sk False obtain xs' ok' where pe: "parse_elements r' = Some (xs', ok', r1)"
      by (cases "parse_elements r'") auto
    have "length r1 < length r'"
      using "2.IH"(2)[OF pv refl refl sk False g pe] .
    with g show ?thesis by simp
  qed
next
  case (3 cs)
  note p = 3(3)[unfolded parse_members.simps[of cs]]
  from p obtain q t where sk0: "skip_ws cs = q # t"
    by (cases "skip_ws cs") auto
  with p have q: "\<not> q \<noteq> CHR 0x22" by (auto split: if_splits)
  from p sk0 q obtain k okk t1 where pc: "parse_chars t = Some (k, okk, t1)"
    by (cases "parse_chars t") auto
  from p sk0 q pc obtain col t2 where sk1: "skip_ws t1 = col # t2"
    by (cases "skip_ws t1") auto
  with p sk0 q pc have g1: "\<not> (col \<noteq> CHR '':'' \<or> \<not> length t2 < length cs)"
    by (auto split: if_splits)
  from p sk0 q pc sk1 g1 obtain v okv t3 where pv: "parse_value t2 = Some (v, okv, t3)"
    by (cases "parse_value t2") auto
  have 1: "length t3 < length t2"
    using "3.IH"(1)[OF sk0 q pc refl refl sk1 g1 pv] .
  from p sk0 q pc sk1 g1 pv obtain d t4 where sk2: "skip_ws t3 = d # t4"
    by (cases "skip_ws t3") auto
  then have 2: "length t4 < length t3" by (rule skip_ws_Cons_shorter)
  show ?case
  proof (cases "d = CHR ''}''")
    case True
    with p sk0 q pc sk1 g1 pv sk2 have "r2 = t4" by simp
    with 1 2 g1 show ?thesis by simp
  next
    case False
    with p sk0 q pc sk1 g1 pv sk2 have g: "d = CHR '','' \<and> length t4 < length cs"
      by (auto split: if_splits)
    with p sk0 q pc sk1 g1 pv sk2 False obtain ms' ok' where pm: "parse_members t4 = Some (ms', ok', r2)"
      by (cases "parse_members t4") auto
    have "length r2 < length t4"
      using "3.IH"(2)[OF sk0 q pc refl refl sk1 g1 pv refl refl sk2 False g pm] .
    with g show ?thesis by simp
  qed
qed


text \<open>The two length tests in \<^const>\<open>parse_elements\<close> and \<^const>\<open>parse_members\<close> serve the
  termination proof only: they always hold where they are evaluated.\<close>

lemma parse_elements_plain:
  "parse_elements cs =
     (case parse_value cs of
        None \<Rightarrow> None
      | Some (x, ok, r) \<Rightarrow>
          (case skip_ws r of
             [] \<Rightarrow> None
           | d # r' \<Rightarrow>
               if d = CHR '']'' then Some ([x], ok, r')
               else if d = CHR '','' then
                 (case parse_elements r' of
                    None \<Rightarrow> None
                  | Some (xs, ok', r'') \<Rightarrow> Some (x # xs, ok \<and> ok', r''))
               else None))"
proof (cases "parse_value cs")
  case None
  then show ?thesis by (subst parse_elements.simps) simp
next
  case (Some res)
  obtain x ok r where res: "res = (x, ok, r)" by (cases res)
  have 1: "length r < length cs" using parse_shorter(1) Some res by blast
  show ?thesis
  proof (cases "skip_ws r")
    case Nil
    with Some res show ?thesis by (subst parse_elements.simps) simp
  next
    case (Cons d r')
    then have "length r' < length cs" using 1 skip_ws_Cons_shorter[of r d r'] by simp
    with Some res Cons show ?thesis by (subst parse_elements.simps) simp
  qed
qed

lemma parse_members_plain:
  "parse_members cs =
     (case skip_ws cs of
        [] \<Rightarrow> None
      | q # r \<Rightarrow>
          if q \<noteq> CHR 0x22 then None
          else
            (case parse_chars r of
               None \<Rightarrow> None
             | Some (k, ok1, r1) \<Rightarrow>
                 (case skip_ws r1 of
                    [] \<Rightarrow> None
                  | col # r2 \<Rightarrow>
                      if col \<noteq> CHR '':'' then None
                      else
                        (case parse_value r2 of
                           None \<Rightarrow> None
                         | Some (v, ok2, r3) \<Rightarrow>
                             (case skip_ws r3 of
                                [] \<Rightarrow> None
                              | d # r4 \<Rightarrow>
                                  if d = CHR ''}'' then Some ([(k, v)], ok1 \<and> ok2, r4)
                                  else if d = CHR '','' then
                                    (case parse_members r4 of
                                       None \<Rightarrow> None
                                     | Some (ms, ok', r5) \<Rightarrow>
                                         Some ((k, v) # ms, ok1 \<and> ok2 \<and> ok', r5))
                                  else None)))))"
proof -
  have a: "length r2 < length cs"
    if "skip_ws cs = q # r" "parse_chars r = Some (k, ok1, r1)" "skip_ws r1 = col # r2"
    for q r k ok1 r1 col r2
    using that skip_ws_Cons_shorter[of cs q r] parse_chars_shorter[of r k ok1 r1]
      skip_ws_Cons_shorter[of r1 col r2] by simp
  have b: "length r4 < length cs"
    if "skip_ws cs = q # r" "parse_chars r = Some (k, ok1, r1)" "skip_ws r1 = col # r2"
      "parse_value r2 = Some (v, ok2, r3)" "skip_ws r3 = d # r4"
    for q r k ok1 r1 col r2 v ok2 r3 d r4
    using that a[of q r k ok1 r1 col r2] parse_shorter(1)[of r2 v ok2 r3]
      skip_ws_Cons_shorter[of r3 d r4] by simp
  show ?thesis
    by (subst parse_members.simps)
      (auto split: list.splits option.splits prod.splits simp: a b)
qed

section \<open>Reading back what \<^const>\<open>JSON_stringify\<close> wrote\<close>

lemma json_ws_simps: "json_ws CHR 0x0A" "json_ws CHR '' ''"
  by (simp_all add: json_ws_def)

lemma skip_ws_spaces: "skip_ws (spaces n @ cs) = skip_ws cs"
  by (induction n) (simp_all add: skip_ws_def spaces_def json_ws_def)

lemma skip_ws_nl: "skip_ws (CHR 0x0A # cs) = skip_ws cs"
  by (simp add: skip_ws_def json_ws_def)

lemma skip_ws_sp: "skip_ws (CHR '' '' # cs) = skip_ws cs"
  by (simp add: skip_ws_def json_ws_def)

lemma skip_ws_stop: "\<not> json_ws c \<Longrightarrow> skip_ws (c # cs) = c # cs"
  by (simp add: skip_ws_def)

lemma skip_ws_idem: "skip_ws (skip_ws cs) = skip_ws cs"
  unfolding skip_ws_def by (induction cs) simp_all

lemma parse_value_skip: "parse_value (skip_ws cs) = parse_value cs"
  by (simp add: parse_value.simps[of "skip_ws cs"] parse_value.simps[of cs] skip_ws_idem)

lemma hex_val_hex_char: "d < 16 \<Longrightarrow> hex_val (hex_char d) = Some d"
  by (auto simp: hex_val_def hex_char_def Let_def)

lemma parse_chars_quote_char:
  "parse_chars (quote_char c @ cs) =
     (case parse_chars cs of None \<Rightarrow> None | Some (s, ok, r) \<Rightarrow> Some (c # s, ok, r))"
proof -
  consider (ctl) "(of_char c :: nat) < 32" | (q) "c = CHR 0x22" | (b) "c = CHR 0x5C" 
    | (plain) "\<not> (of_char c :: nat) < 32" "c \<noteq> CHR 0x22" "c \<noteq> CHR 0x5C"
    by blast
  then show ?thesis
  proof cases
    case ctl
    have h: "hex4 CHR ''0'' CHR ''0'' (hex_char (of_char c div 16)) (hex_char (of_char c mod 16)) = Some (of_char c)"
      using ctl by (simp add: hex4_def hex_val_hex_char) (simp add: hex_val_def)
    show ?thesis using ctl h
      by (auto simp: quote_char_def unescape_def split: option.splits)
  next
    case q
    then show ?thesis by (auto simp: quote_char_def unescape_def split: option.splits)
  next
    case b
    then show ?thesis by (auto simp: quote_char_def unescape_def split: option.splits)
  next
    case plain
    then have "quote_char c = [c]" by (auto simp: quote_char_def)
    then show ?thesis using plain by simp
  qed
qed

lemma parse_chars_quoted:
  "parse_chars (concat (map quote_char s) @ CHR 0x22 # rest) = Some (s, True, rest)"
  by (induction s) (simp_all add: parse_chars_quote_char)

lemma digit_char_is_digit: "d < 10 \<Longrightarrow> is_digit (digit_char d)"
  by (simp add: is_digit_def digit_char_def)

lemma digit_val_digit_char: "d < 10 \<Longrightarrow> digit_val (digit_char d) = d"
  by (simp add: digit_val_def digit_char_def)

lemma digits_of_digits: "\<forall>c \<in> set (digits_of n). is_digit c"
  by (induction n rule: digits_of.induct) (subst digits_of.simps, simp add: digit_char_is_digit)

lemma digits_of_nonempty: "digits_of n \<noteq> []"
  by (subst digits_of.simps) simp

lemma digits_val_append: "digits_val (ds @ [c]) = 10 * digits_val ds + digit_val c"
  by (simp add: digits_val_def)

lemma digits_val_digits_of: "digits_val (digits_of n) = n"
proof (induction n rule: digits_of.induct)
  case (1 n)
  show ?case
  proof (cases "n < 10")
    case True
    then show ?thesis
      by (subst digits_of.simps) (simp add: digits_val_def digit_val_digit_char)
  next
    case False
    then show ?thesis
      using 1 by (subst digits_of.simps) (simp add: digits_val_append digit_val_digit_char)
  qed
qed

lemma hd_digits_of: "hd (digits_of n) = CHR ''0'' \<Longrightarrow> n = 0"
proof (induction n rule: digits_of.induct)
  case (1 n)
  show ?case
  proof (cases "n < 10")
    case True
    with 1(2) have "digit_char n = CHR ''0''" by (subst (asm) digits_of.simps) simp
    then have "digit_val (digit_char n) = digit_val CHR ''0''" by simp
    then show ?thesis using True by (simp add: digit_val_digit_char) (simp add: digit_val_def)
  next
    case False
    with 1(2) have "hd (digits_of (n div 10)) = CHR ''0''"
      by (subst (asm) digits_of.simps) (simp add: digits_of_nonempty)
    with 1(1) False have "n div 10 = 0" by simp
    with False show ?thesis by simp
  qed
qed

lemma length_digits_of_0: "length (digits_of 0) = 1"
  by (subst digits_of.simps) simp



lemma takeWhile_digits_of:
  "delimited rest \<Longrightarrow> takeWhile is_digit (digits_of n @ rest) = digits_of n"
  using digits_of_digits[of n]
  by (cases rest) (auto simp: delimited_def takeWhile_append is_digit_def)

lemma dropWhile_digits_of:
  "delimited rest \<Longrightarrow> dropWhile is_digit (digits_of n @ rest) = rest"
  using digits_of_digits[of n]
  by (cases rest) (auto simp: delimited_def dropWhile_append is_digit_def)

lemma parse_frac_delimited: "delimited rest \<Longrightarrow> parse_frac rest = Some (False, rest)"
  by (cases rest) (auto simp: delimited_def parse_frac_def)

lemma parse_exp_delimited: "delimited rest \<Longrightarrow> parse_exp rest = Some (False, rest)"
  by (cases rest) (auto simp: delimited_def parse_exp_def)

lemma digits_of_no_lead: "\<not> (hd (digits_of n) = CHR ''0'' \<and> 1 < length (digits_of n))"
  using hd_digits_of[of n] length_digits_of_0 by auto

lemma hd_digits_of_not_minus: "hd (digits_of n) \<noteq> CHR ''-''"
proof -
  have "is_digit (hd (digits_of n))"
    using digits_of_digits[of n] digits_of_nonempty[of n] by (cases "digits_of n") auto
  then show ?thesis by (auto simp: is_digit_def)
qed

lemma parse_number_digits:
  assumes "delimited rest"
  shows "parse_number (digits_of n @ rest) = Some (int n, True, rest)"
proof -
  have "digits_of n @ rest \<noteq> []" by (simp add: digits_of_nonempty)
  moreover have "hd (digits_of n @ rest) \<noteq> CHR ''-''"
    using hd_digits_of_not_minus[of n] by (simp add: digits_of_nonempty)
  ultimately show ?thesis
    using assms digits_of_no_lead[of n]
    by (simp add: parse_number_def Let_def takeWhile_digits_of dropWhile_digits_of
        parse_frac_delimited parse_exp_delimited digits_of_nonempty digits_val_digits_of)
qed

lemma parse_number_minus_digits:
  assumes "delimited rest"
  shows "parse_number (CHR ''-'' # digits_of n @ rest) = Some (- int n, True, rest)"
  using assms digits_of_no_lead[of n]
  by (simp add: parse_number_def Let_def takeWhile_digits_of dropWhile_digits_of
      parse_frac_delimited parse_exp_delimited digits_of_nonempty digits_val_digits_of)

lemma parse_number_num_str:
  "delimited rest \<Longrightarrow> parse_number (num_str i @ rest) = Some (i, True, rest)"
  by (simp add: num_str_def parse_number_digits parse_number_minus_digits)

lemma num_str_start:
  "\<exists>c cs. num_str i = c # cs \<and> (is_digit c \<or> c = CHR ''-'')"
proof -
  obtain d ds where "digits_of (nat \<bar>i\<bar>) = d # ds"
    using digits_of_nonempty by (cases "digits_of (nat \<bar>i\<bar>)") auto
  moreover have "is_digit d" using digits_of_digits[of "nat \<bar>i\<bar>"] calculation by simp
  ultimately show ?thesis by (cases "i < 0") (auto simp: num_str_def abs_if)
qed

lemma parse_value_num:
  assumes "delimited rest"
  shows "parse_value (num_str i @ rest) = Some (JNum i, True, rest)"
proof -
  obtain c cs where c: "num_str i = c # cs" "is_digit c \<or> c = CHR ''-''"
    using num_str_start by blast
  then have nws: "\<not> json_ws c" "c \<noteq> CHR 0x22" "c \<noteq> CHR ''[''" "c \<noteq> CHR ''{''"
    "c \<noteq> CHR ''t''" "c \<noteq> CHR ''f''" "c \<noteq> CHR ''n''"
    by (auto simp: is_digit_def json_ws_def)
  have "parse_number (c # cs @ rest) = Some (i, True, rest)"
    using parse_number_num_str[OF assms, of i] c by simp
  then show ?thesis
    using c nws by (subst parse_value.simps) (simp add: skip_ws_stop)
qed

lemma parse_value_str:
  "parse_value (quote s @ rest) = Some (JStr s, True, rest)"
  by (subst parse_value.simps) (simp add: quote_def skip_ws_stop json_ws_def parse_chars_quoted)

lemma parse_value_lit:
  "parse_value (''null'' @ rest) = Some (JNull, True, rest)"
  "parse_value (''true'' @ rest) = Some (JBool True, True, rest)"
  "parse_value (''false'' @ rest) = Some (JBool False, True, rest)"
  by (subst parse_value.simps, simp add: skip_ws_stop json_ws_def)+


lemma stringify_start:
  "\<exists>c cs. stringify ind v = c # cs \<and> \<not> json_ws c \<and> c \<noteq> CHR '']'' \<and> c \<noteq> CHR ''}''"
proof (cases v)
  case (JNum i)
  then show ?thesis using num_str_start[of i] by (auto simp: is_digit_def json_ws_def)
next
  case (JArr xs)
  then show ?thesis by (cases xs) (simp_all add: json_ws_def)
next
  case (JObj ms)
  then show ?thesis by (cases ms) (simp_all add: json_ws_def)
qed (simp_all add: json_ws_def quote_def)

lemma skip_ws_elements:
  assumes "xs \<noteq> []"
  shows "\<exists>d r. skip_ws (CHR 0x0A # stringify_elements ind xs @ t) = d # r \<and> d \<noteq> CHR '']''"
proof -
  obtain x ys where xs: "xs = x # ys" using assms by (cases xs) auto
  obtain c cs where c: "stringify ind x = c # cs" "\<not> json_ws c" "c \<noteq> CHR '']''"
    using stringify_start by blast
  show ?thesis
    using c by (cases ys) (simp_all add: xs skip_ws_nl skip_ws_spaces skip_ws_stop)
qed

lemma skip_ws_members:
  assumes "ms \<noteq> []"
  shows "\<exists>r. skip_ws (CHR 0x0A # stringify_members ind ms @ t) = CHR 0x22 # r"
proof -
  obtain k v ys where ms: "ms = (k, v) # ys" using assms by (cases ms) auto
  show ?thesis
    by (cases ys) (simp_all add: ms skip_ws_nl skip_ws_spaces skip_ws_stop quote_def json_ws_def)
qed

lemma parse_value_nl: "parse_value (CHR 0x0A # cs) = parse_value cs"
  using parse_value_skip[of "CHR 0x0A # cs"] parse_value_skip[of cs] by (simp add: skip_ws_nl)

lemma parse_value_sp: "parse_value (CHR '' '' # cs) = parse_value cs"
  using parse_value_skip[of "CHR '' '' # cs"] parse_value_skip[of cs] by (simp add: skip_ws_sp)

lemma parse_value_spaces: "parse_value (spaces n @ cs) = parse_value cs"
  using parse_value_skip[of "spaces n @ cs"] parse_value_skip[of cs] by (simp add: skip_ws_spaces)

lemma delimited_simps: "delimited []" "delimited (CHR '','' # r)" "delimited (CHR 0x0A # r)"
  by (simp_all add: delimited_def)

lemma parse_stringify:
  "delimited rest \<Longrightarrow> parse_value (stringify ind v @ rest) = Some (v, True, rest)"
  "xs \<noteq> [] \<Longrightarrow>
     parse_elements (CHR 0x0A # stringify_elements ind xs @ CHR 0x0A # spaces j @ CHR '']'' # rest1)
       = Some (xs, True, rest1)"
  "ms \<noteq> [] \<Longrightarrow>
     parse_members (CHR 0x0A # stringify_members ind ms @ CHR 0x0A # spaces j' @ CHR ''}'' # rest2)
       = Some (ms, True, rest2)"
proof (induction ind v and ind xs and ind ms arbitrary: rest and j rest1 and j' rest2
    rule: stringify_stringify_elements_stringify_members.induct)
  case (1 ind)
  show ?case using parse_value_lit(1) by simp
next
  case (2 ind b)
  show ?case using parse_value_lit(2,3) by (cases b) simp_all
next
  case (3 ind n)
  then show ?case by (simp add: parse_value_num)
next
  case (4 ind s)
  show ?case by (simp add: parse_value_str)
next
  case (5 ind)
  show ?case by (subst parse_value.simps) (simp add: skip_ws_stop json_ws_def)
next
  case (6 ind x xs)
  obtain d r where d: "skip_ws (CHR 0x0A # stringify_elements (ind + 2) (x # xs) @
      CHR 0x0A # spaces ind @ CHR '']'' # rest) = d # r" "d \<noteq> CHR '']''"
    using skip_ws_elements[of "x # xs"] by blast
  show ?case
    using d 6(1)[of ind rest]
    by (subst parse_value.simps) (simp add: skip_ws_stop json_ws_def)
next
  case (7 ind)
  show ?case by (subst parse_value.simps) (simp add: skip_ws_stop json_ws_def)
next
  case (8 ind m ms)
  obtain r where d: "skip_ws (CHR 0x0A # stringify_members (ind + 2) (m # ms) @
      CHR 0x0A # spaces ind @ CHR ''}'' # rest) = CHR 0x22 # r"
    using skip_ws_members[of "m # ms"] by blast
  show ?case
    using d 8(1)[of ind rest]
    by (subst parse_value.simps) (simp add: skip_ws_stop json_ws_def)
next
  case (9 ind)
  then show ?case by simp
next
  case (10 ind x)
  have "parse_value (stringify ind x @ CHR 0x0A # spaces j @ CHR '']'' # rest1)
      = Some (x, True, CHR 0x0A # spaces j @ CHR '']'' # rest1)"
    by (rule 10(1)) (simp add: delimited_simps)
  then show ?case
    by (subst parse_elements.simps)
      (simp add: parse_value_nl parse_value_spaces skip_ws_nl skip_ws_spaces skip_ws_stop json_ws_def)
next
  case (11 ind x y ys)
  have "parse_value (stringify ind x @ CHR '','' # CHR 0x0A # stringify_elements ind (y # ys) @
      CHR 0x0A # spaces j @ CHR '']'' # rest1)
      = Some (x, True, CHR '','' # CHR 0x0A # stringify_elements ind (y # ys) @
      CHR 0x0A # spaces j @ CHR '']'' # rest1)"
    by (rule 11(1)) (simp add: delimited_simps)
  then show ?case
    using 11(2)[of j rest1]
    by (subst parse_elements.simps)
      (simp add: parse_value_nl parse_value_spaces skip_ws_stop json_ws_def)
next
  case (12 ind)
  then show ?case by simp
next
  case (13 ind k v)
  have "parse_value (stringify ind v @ CHR 0x0A # spaces j' @ CHR ''}'' # rest2)
      = Some (v, True, CHR 0x0A # spaces j' @ CHR ''}'' # rest2)"
    by (rule 13(1)) (simp add: delimited_simps)
  then show ?case
    by (subst parse_members.simps)
      (simp add: quote_def parse_chars_quoted parse_value_sp
        skip_ws_nl skip_ws_spaces skip_ws_stop json_ws_def)
next
  case (14 ind k v m ms)
  have "parse_value (stringify ind v @ CHR '','' # CHR 0x0A # stringify_members ind (m # ms) @
      CHR 0x0A # spaces j' @ CHR ''}'' # rest2)
      = Some (v, True, CHR '','' # CHR 0x0A # stringify_members ind (m # ms) @
      CHR 0x0A # spaces j' @ CHR ''}'' # rest2)"
    by (rule 14(1)) (simp add: delimited_simps)
  then show ?case
    using 14(2)[of j' rest2]
    by (subst parse_members.simps)
      (simp add: quote_def parse_chars_quoted parse_value_sp
        skip_ws_nl skip_ws_spaces skip_ws_stop json_ws_def)
qed

lemma JSON_parse_stringify: "JSON_parse (JSON_stringify v @ [CHR 0x0A]) = Some (v, True)"
  using parse_stringify(1)[of "[CHR 0x0A]" 0 v]
  by (simp add: JSON_parse_def JSON_stringify_def delimited_simps skip_ws_def json_ws_def)


section \<open>Facts about the store\<close>

lemma those_str_of: "those (map (str_of \<circ> JStr) ts) = Some ts"
  by (induction ts) (simp_all add: str_of_def)

lemma json_snippet_snippet_json: "json_snippet (snippet_json s) = Some s"
  by (simp add: json_snippet_def snippet_json_def num_of_def str_of_def strs_of_def those_str_of)

lemma those_json_snippet: "those (map (json_snippet \<circ> snippet_json) ss) = Some ss"
  by (induction ss) (simp_all add: json_snippet_snippet_json)

lemma json_snippets_snippets_json: "json_snippets (snippets_json ss) = Some ss"
  by (simp add: json_snippets_def snippets_json_def those_json_snippet)

lemma readJson_written:
  "readJson (File True wr (JSON_stringify (snippets_json ss) @ [CHR 0x0A])) = Inr (Records ss)"
  by (simp add: readJson_def readFile_def JSON_parse_stringify json_snippets_snippets_json)

lemma loadSnippets_returns: "\<exists>v. loadSnippets w = Inr v"
  by (simp add: loadSnippets_def split: sum.splits)

lemma loadSnippets_files:
  "files w SNIPPET_FILE = files w' SNIPPET_FILE \<Longrightarrow> loadSnippets w = loadSnippets w'"
  by (simp add: loadSnippets_def)

lemma log_simps:
  "files (log c s w) = files w"
  "clipboard (log c s w) = clipboard w"
  "console (log c s w) = console w @ [(c, s)]"
  by (simp_all add: log_def)

lemma loadSnippets_log: "loadSnippets (log c s w) = loadSnippets w"
  by (simp add: loadSnippets_def log_simps)

lemma loadSnippets_holding: "loadSnippets (holding ss) = Inr (Records ss)"
  by (simp add: loadSnippets_def holding_def readJson_written)

lemma loadSnippets_fresh: "loadSnippets fresh = Inr (Records [])"
  by (simp add: loadSnippets_def fresh_def readJson_def readFile_def)

lemma writeFile_eq:
  "writeFile f s = (if can_write f then Inr (after_write f s) else Inl EACCES)"
  by (cases f) (simp_all add: writeFile_def can_write_def after_write_def)

lemma writeJson_eq:
  "writeJson p j w =
     (if can_write (files w p)
      then Inr (w\<lparr>files := (files w)(p := after_write (files w p) (JSON_stringify j @ [CHR 0x0A]))\<rparr>)
      else Inl EACCES)"
  by (simp add: writeJson_def writeFile_eq)

lemma write_to_eq:
  "write_to p s w =
     (if can_write (files w p)
      then Inr (w\<lparr>files := (files w)(p := after_write (files w p) s)\<rparr>)
      else Inl EACCES)"
  by (simp add: write_to_def writeFile_eq)

lemma readJson_after_write:
  "readJson (after_write f (JSON_stringify (snippets_json ss) @ [CHR 0x0A])) =
     (if f = Absent \<or> can_read f then Inr (Records ss) else Inl EACCES)"
  by (cases f) (simp_all add: after_write_def can_read_def readJson_written, simp add: readJson_def readFile_def)

lemma addSnippet_completes:
  assumes "loadSnippets w = Inr (Records snippets)"
    and "snd (ask_title (title_inputs inp)) = Some answer"
    and "can_write (files w SNIPPET_FILE)"
  shows "addSnippet inp w =
      Completed (log Green (''Snippet '' @ dq @ answer @ dq @ '' added!'')
        (log Green ''Snippets saved!''
          (w\<lparr>files := (files w)(SNIPPET_FILE := after_write (files w SNIPPET_FILE)
              (JSON_stringify (snippets_json (snippets @ [pushed snippets answer inp])) @ [CHR 0x0A]))\<rparr>)))"
  using assms by (simp add: addSnippet_def saveSnippets_def writeJson_eq)

lemma addSnippet_throws:
  assumes "loadSnippets w = Inr (Records snippets)"
    and "snd (ask_title (title_inputs inp)) = Some answer"
    and "\<not> can_write (files w SNIPPET_FILE)"
  shows "addSnippet inp w = Threw EACCES w"
  using assms by (simp add: addSnippet_def saveSnippets_def writeJson_eq)

lemma addSnippet_waits:
  "snd (ask_title (title_inputs inp)) = None \<Longrightarrow> addSnippet inp w = Waiting w"
  by (simp add: addSnippet_def)

lemma loadSnippets_after_save:
  "loadSnippets (w\<lparr>files := (files w)(SNIPPET_FILE := after_write (files w SNIPPET_FILE)
              (JSON_stringify (snippets_json ss) @ [CHR 0x0A]))\<rparr>) =
     Inr (Records (if files w SNIPPET_FILE = Absent \<or> can_read (files w SNIPPET_FILE) then ss else []))"
  by (simp add: loadSnippets_def readJson_after_write)

section \<open>Tag parsing\<close>

lemma split_nonempty: "split sep s \<noteq> []"
  by (induction s) (auto split: list.splits)

lemma join_split: "join [sep] (split sep s) = s"
proof (induction s)
  case Nil
  show ?case by simp
next
  case (Cons c cs)
  obtain t ts where ts: "split sep cs = t # ts"
    using split_nonempty[of sep cs] by (cases "split sep cs") auto
  with Cons show ?case by (cases ts) auto
qed

lemma split_no_sep: "t \<in> set (split sep s) \<Longrightarrow> sep \<notin> set t"
proof (induction s arbitrary: t)
  case Nil
  then show ?case by simp
next
  case (Cons c cs)
  then show ?case
    by (cases "split sep cs") (auto split: if_splits)
qed

lemma split_append_sep:
  "sep \<notin> set t \<Longrightarrow> split sep (t @ sep # s) = t # split sep s"
  by (induction t) auto

lemma split_no_sep_id: "sep \<notin> set t \<Longrightarrow> split sep t = [t]"
  by (induction t) auto

lemma split_join:
  "ts \<noteq> [] \<Longrightarrow> \<forall>t \<in> set ts. sep \<notin> set t \<Longrightarrow> split sep (join [sep] ts) = ts"
proof (induction ts)
  case Nil
  then show ?case by simp
next
  case (Cons x ys)
  show ?case
  proof (cases ys)
    case Nil
    with Cons.prems show ?thesis by (simp add: split_no_sep_id)
  next
    case (Cons y zs)
    with Cons.IH Cons.prems show ?thesis by (simp add: split_append_sep)
  qed
qed

lemma trim_decompose:
  "\<exists>a b. t = a @ trim t @ b \<and> (\<forall>c \<in> set a. js_whitespace c) \<and> (\<forall>c \<in> set b. js_whitespace c)"
proof -
  let ?a = "takeWhile js_whitespace t"
  let ?m = "dropWhile js_whitespace t"
  let ?b = "rev (takeWhile js_whitespace (rev ?m))"
  have "?m = trim t @ ?b"
    unfolding trim_def
    by (metis rev_append rev_rev_ident takeWhile_dropWhile_id)
  then have "t = ?a @ trim t @ ?b" by (metis takeWhile_dropWhile_id)
  moreover have "\<forall>c \<in> set ?a. js_whitespace c" by (auto dest: set_takeWhileD)
  moreover have "\<forall>c \<in> set ?b. js_whitespace c" by (auto dest: set_takeWhileD)
  ultimately show ?thesis by blast
qed

lemma trim_ends:
  "trim t \<noteq> [] \<Longrightarrow> \<not> js_whitespace (hd (trim t)) \<and> \<not> js_whitespace (last (trim t))"
proof -
  assume ne: "trim t \<noteq> []"
  let ?m = "dropWhile js_whitespace t"
  let ?r = "dropWhile js_whitespace (rev ?m)"
  have r: "?r \<noteq> []" using ne by (simp add: trim_def)
  then have "\<not> js_whitespace (hd ?r)" by (metis hd_dropWhile)
  then have l: "\<not> js_whitespace (last (trim t))" using r by (simp add: trim_def last_rev)
  have m: "?m \<noteq> []"
  proof
    assume a: "?m = []"
    have "?r = []" unfolding a by simp
    with r show False by simp
  qed
  then have hm: "\<not> js_whitespace (hd ?m)" by (metis hd_dropWhile)
  obtain b where b: "?m = trim t @ b"
    unfolding trim_def by (metis rev_append rev_rev_ident takeWhile_dropWhile_id)
  then have "hd ?m = hd (trim t)" using ne by (metis hd_append2)
  with hm l show ?thesis by simp
qed

text \<open>
  Claim C3. For every input string of the tags prompt: the tokens are the pieces between the
  commas (joining them with commas gives the input back, none contains a comma, and no
  other list of comma-free pieces does); each token is trimmed of the white space at its
  two ends; the empty results are dropped and the others keep their order.
\<close>

theorem filter_tags_splits_trims_drops:
  "join '','' (split CHR '','' input) = input
   \<and> (\<forall>ts. ts \<noteq> [] \<and> (\<forall>t \<in> set ts. CHR '','' \<notin> set t) \<and> join '','' ts = input
          \<longrightarrow> ts = split CHR '','' input)
   \<and> filter_tags input = filter (\<lambda>t. t \<noteq> []) (map trim (split CHR '','' input))
   \<and> (\<forall>t \<in> set (split CHR '','' input).
         CHR '','' \<notin> set t
         \<and> (\<exists>a b. t = a @ trim t @ b \<and> (\<forall>c \<in> set a. js_whitespace c) \<and> (\<forall>c \<in> set b. js_whitespace c))
         \<and> (trim t = [] \<or> \<not> js_whitespace (hd (trim t)) \<and> \<not> js_whitespace (last (trim t))))"
proof (intro conjI allI impI ballI)
  show "join '','' (split CHR '','' input) = input" by (rule join_split)
next
  fix ts
  assume "ts \<noteq> [] \<and> (\<forall>t \<in> set ts. CHR '','' \<notin> set t) \<and> join '','' ts = input"
  then show "ts = split CHR '','' input" using split_join[of ts "CHR '',''"] by auto
next
  show "filter_tags input = filter (\<lambda>t. t \<noteq> []) (map trim (split CHR '','' input))"
    by (simp add: filter_tags_def truthy_def)
next
  fix t assume "t \<in> set (split CHR '','' input)"
  then show "CHR '','' \<notin> set t" by (rule split_no_sep)
next
  fix t
  show "\<exists>a b. t = a @ trim t @ b \<and> (\<forall>c \<in> set a. js_whitespace c) \<and> (\<forall>c \<in> set b. js_whitespace c)"
    by (rule trim_decompose)
next
  fix t
  show "trim t = [] \<or> \<not> js_whitespace (hd (trim t)) \<and> \<not> js_whitespace (last (trim t))"
    using trim_ends[of t] by blast
qed

text \<open>The example of the specification, from the theorem above.\<close>

theorem filter_tags_example:
  "split CHR '','' ''react, api, , hooks'' = [''react'', '' api'', '' '', '' hooks'']
   \<and> filter_tags ''react, api, , hooks'' = [''react'', ''api'', ''hooks'']"
  using filter_tags_splits_trims_drops[of "''react, api, , hooks''"]
  by (simp add: trim_def js_whitespace_def)


section \<open>Add and load\<close>

text \<open>
  Claim C1. For every collection of N records in the store, Add appends exactly one record
  to it, and the id of that record is N + 1, whatever ids the N records carry: the text
  written to the backing file is the serialisation of the old records followed by the new
  one, and loading afterwards (from a file that can be read) returns that collection.
\<close>

theorem addSnippet_appends_with_next_id:
  assumes "loadSnippets w = Inr (Records snippets)"
    and "snd (ask_title (title_inputs inp)) = Some answer"
    and "can_write (files w SNIPPET_FILE)"
  shows "\<exists>w' r.
      addSnippet inp w = Completed w'
    \<and> text_of (files w' SNIPPET_FILE) = Some (JSON_stringify (snippets_json (snippets @ [r])) @ [CHR 0x0A])
    \<and> id' r = int (length snippets) + 1
    \<and> title r = answer
    \<and> loadSnippets w' =
        Inr (Records (if files w SNIPPET_FILE = Absent \<or> can_read (files w SNIPPET_FILE)
                      then snippets @ [r] else []))"
proof -
  let ?r = "pushed snippets answer inp"
  let ?w = "w\<lparr>files := (files w)(SNIPPET_FILE := after_write (files w SNIPPET_FILE)
              (JSON_stringify (snippets_json (snippets @ [?r])) @ [CHR 0x0A]))\<rparr>"
  let ?w' = "log Green (''Snippet '' @ dq @ answer @ dq @ '' added!'') (log Green ''Snippets saved!'' ?w)"
  have 1: "addSnippet inp w = Completed ?w'"
    using assms by (rule addSnippet_completes)
  have 2: "text_of (files ?w' SNIPPET_FILE) =
      Some (JSON_stringify (snippets_json (snippets @ [?r])) @ [CHR 0x0A])"
    by (cases "files w SNIPPET_FILE") (simp_all add: log_simps text_of_def after_write_def)
  have 3: "id' ?r = int (length snippets) + 1" "title ?r = answer"
    by (simp_all add: pushed_def)
  have 4: "loadSnippets ?w' =
      Inr (Records (if files w SNIPPET_FILE = Absent \<or> can_read (files w SNIPPET_FILE)
                    then snippets @ [?r] else []))"
    by (simp only: loadSnippets_log loadSnippets_after_save)
  from 1 2 3 4 show ?thesis by blast
qed

text \<open>A store whose only record has id 7: the record added has id 2.\<close>

theorem addSnippet_appends_with_next_id_example:
  "\<exists>w' r.
      addSnippet (example_input [''Debounce'']) (holding [example_snippet 7 ''a'' ''python'' ''General'']) = Completed w'
    \<and> id' r = 2 \<and> title r = ''Debounce''
    \<and> loadSnippets w' = Inr (Records [example_snippet 7 ''a'' ''python'' ''General'', r])"
proof -
  have "can_write (files (holding [example_snippet 7 ''a'' ''python'' ''General'']) SNIPPET_FILE)"
    by (simp add: holding_def can_write_def)
  moreover have "snd (ask_title (title_inputs (example_input [''Debounce'']))) = Some ''Debounce''"
    by (simp add: example_input_def validate_title_def truthy_def)
  moreover have "can_read (files (holding [example_snippet 7 ''a'' ''python'' ''General'']) SNIPPET_FILE)"
    by (simp add: holding_def can_read_def)
  ultimately show ?thesis
    using addSnippet_appends_with_next_id[OF loadSnippets_holding,
        of "example_input [''Debounce'']" "''Debounce''" "[example_snippet 7 ''a'' ''python'' ''General'']"]
    by auto
qed

text \<open>
  Claim C2. Whatever the state of the backing file, \<^const>\<open>loadSnippets\<close> returns a value and
  does not throw. When the file is absent, cannot be read, or holds a text that
  \<^const>\<open>JSON_parse\<close> rejects, the value is the empty collection, at the first call and at every
  later one.
\<close>

theorem loadSnippets_empty_on_failure:
  "(\<exists>v. loadSnippets w = Inr v)
   \<and> (files w SNIPPET_FILE = Absent
        \<or> \<not> can_read (files w SNIPPET_FILE)
        \<or> (\<exists>s. text_of (files w SNIPPET_FILE) = Some s \<and> JSON_parse s = None)
      \<longrightarrow> loadSnippets w = Inr (Records [])
          \<and> load_repeatedly n w = replicate n (Inr (Records [])))"
proof (intro conjI impI)
  show "\<exists>v. loadSnippets w = Inr v" by (rule loadSnippets_returns)
next
  assume a: "files w SNIPPET_FILE = Absent
        \<or> \<not> can_read (files w SNIPPET_FILE)
        \<or> (\<exists>s. text_of (files w SNIPPET_FILE) = Some s \<and> JSON_parse s = None)"
  have "\<exists>e. readJson (files w SNIPPET_FILE) = Inl e"
  proof (cases "files w SNIPPET_FILE")
    case Absent
    then show ?thesis by (simp add: readJson_def readFile_def)
  next
    case (File r ok s)
    with a show ?thesis
      by (auto simp: readJson_def readFile_def can_read_def text_of_def)
  qed
  then show 1: "loadSnippets w = Inr (Records [])"
    by (auto simp: loadSnippets_def)
  show "load_repeatedly n w = replicate n (Inr (Records []))"
    by (induction n) (simp_all add: 1)
qed

theorem loadSnippets_empty_on_failure_examples:
  "load_repeatedly 3 fresh = [Inr (Records []), Inr (Records []), Inr (Records [])]
   \<and> loadSnippets (fresh\<lparr>files := (files fresh)(SNIPPET_FILE := File False True ''[]'')\<rparr>) = Inr (Records [])
   \<and> JSON_parse ''[{'' = None
   \<and> load_repeatedly 2 (fresh\<lparr>files := (files fresh)(SNIPPET_FILE := File True True ''[{'')\<rparr>)
       = [Inr (Records []), Inr (Records [])]"
proof -
  have p: "JSON_parse ''[{'' = None"
    by (simp add: JSON_parse_def parse_value.simps parse_elements.simps parse_members.simps
        skip_ws_def json_ws_def)
  have 1: "load_repeatedly 3 fresh = replicate 3 (Inr (Records []))"
    using loadSnippets_empty_on_failure[of fresh 3] by (simp add: fresh_def)
  have 2: "loadSnippets (fresh\<lparr>files := (files fresh)(SNIPPET_FILE := File False True ''[]'')\<rparr>) = Inr (Records [])"
    using loadSnippets_empty_on_failure[of "fresh\<lparr>files := (files fresh)(SNIPPET_FILE := File False True ''[]'')\<rparr>" 0]
    by (simp add: can_read_def)
  have 3: "load_repeatedly 2 (fresh\<lparr>files := (files fresh)(SNIPPET_FILE := File True True ''[{'')\<rparr>)
       = replicate 2 (Inr (Records []))"
    using loadSnippets_empty_on_failure[of "fresh\<lparr>files := (files fresh)(SNIPPET_FILE := File True True ''[{'')\<rparr>" 2] p
    by (simp add: text_of_def)
  from p 1 2 3 show ?thesis by (simp add: numeral_eq_Suc)
qed

section \<open>Export and the title prompt\<close>


lemma text_of_after_write: "text_of (after_write f s) = Some s"
  by (cases f) (simp_all add: text_of_def after_write_def)



text \<open>
  Claim C6. For every format other than \<^verbatim>\<open>json\<close> and \<^verbatim>\<open>markdown\<close>, Export prints the
  unsupported-format message and does nothing else: no file is created or changed, so the
  collection and both export files are as before.
\<close>

theorem export_rejects_other_formats:
  assumes "format \<noteq> ''json''" and "format \<noteq> ''markdown''"
  shows "\<exists>w'.
      exportSnippets format w = Completed w'
    \<and> files w' = files w
    \<and> clipboard w' = clipboard w
    \<and> console w' = console w @
        [(Red, ''Unsupported format. Use '' @ dq @ ''json'' @ dq @ '' or '' @ dq @ ''markdown'' @ dq @ ''.'')]
    \<and> loadSnippets w' = loadSnippets w"
proof -
  obtain v where "loadSnippets w = Inr v" using loadSnippets_returns by blast
  then show ?thesis
    using assms by (simp add: exportSnippets_def log_simps loadSnippets_log)
qed

theorem export_rejects_yaml:
  "\<exists>w'.
      exportSnippets ''yaml'' (holding [example_snippet 1 ''a'' ''python'' ''General'']) = Completed w'
    \<and> files w' EXPORT_JSON = Absent \<and> files w' EXPORT_MD = Absent
    \<and> loadSnippets w' = Inr (Records [example_snippet 1 ''a'' ''python'' ''General''])
    \<and> console w' = [(Red, ''Unsupported format. Use '' @ dq @ ''json'' @ dq @ '' or '' @ dq @ ''markdown'' @ dq @ ''.'')]"
  using export_rejects_other_formats[of "''yaml''" "holding [example_snippet 1 ''a'' ''python'' ''General'']"]
    loadSnippets_holding[of "[example_snippet 1 ''a'' ''python'' ''General'']"]
  by (auto simp: holding_def)

lemma md_append_section: "md_append markdown s = markdown @ markdown_section s"
  by (simp add: md_append_def markdown_section_def or_None_def truthy_def)

lemma foldl_md_append: "foldl md_append markdown ss = markdown @ concat (map markdown_section ss)"
  by (induction ss arbitrary: markdown) (simp_all add: md_append_section)

text \<open>
  Claim C9. For every collection of records in the store, the markdown export writes one
  document: the title line, then one section per record in the order of the collection;
  a section is the heading with the title, the language, the category, the tags joined by
  comma and space, the description (\<^verbatim>\<open>None\<close> when it is empty), and the code between two
  fences, the first one followed by the language.
\<close>

theorem export_markdown_document:
  assumes "loadSnippets w = Inr (Records snippets)"
    and "can_write (files w EXPORT_MD)"
  shows "\<exists>w'.
      exportSnippets ''markdown'' w = Completed w'
    \<and> text_of (files w' EXPORT_MD) = Some (markdown_document snippets)
    \<and> files w' SNIPPET_FILE = files w SNIPPET_FILE
    \<and> files w' EXPORT_JSON = files w EXPORT_JSON
    \<and> console w' = console w @ [(Green, ''Snippets exported to snippets-export.md'')]"
  using assms
  by (simp add: exportSnippets_def write_to_eq foldl_md_append markdown_document_def log_simps
      text_of_after_write)

theorem export_markdown_example:
  "\<exists>w'.
      exportSnippets ''markdown'' (holding [example_snippet 1 ''Debounce'' ''javascript'' ''General'']) = Completed w'
    \<and> text_of (files w' EXPORT_MD) = Some
        (''# Code Snippets'' @ [CHR 0x0A, CHR 0x0A] @
         ''## Debounce'' @ [CHR 0x0A] @
         ''- **Language**: javascript'' @ [CHR 0x0A] @
         ''- **Category**: General'' @ [CHR 0x0A] @
         ''- **Tags**: utils, js'' @ [CHR 0x0A] @
         ''- **Description**: None'' @ [CHR 0x0A] @
         ''```javascript'' @ [CHR 0x0A] @ ''f(x)'' @ [CHR 0x0A] @ ''```'' @ [CHR 0x0A, CHR 0x0A])"
proof -
  have "can_write (files (holding [example_snippet 1 ''Debounce'' ''javascript'' ''General'']) EXPORT_MD)"
    by (simp add: holding_def can_write_def)
  then show ?thesis
    using export_markdown_document[OF loadSnippets_holding,
        of "[example_snippet 1 ''Debounce'' ''javascript'' ''General'']"]
    by (auto simp: markdown_document_def markdown_section_def example_snippet_def)
qed

lemma ask_title_find: "snd (ask_title inputs) = find (\<lambda>i. i \<noteq> []) inputs"
  by (induction inputs) (simp_all add: validate_title_def truthy_def)

lemma ask_title_messages:
  "fst (ask_title inputs) = replicate (length (takeWhile (\<lambda>i. i = []) inputs)) ''Title is required''"
  by (induction inputs) (simp_all add: validate_title_def truthy_def)

text \<open>
  Claim C10. The title validator accepts exactly the non-empty strings. The empty string is
  rejected with the message \<^verbatim>\<open>Title is required\<close> and the prompt asks again; the answer is
  the first input that is not empty, unchanged (nothing is trimmed), and that answer is
  the title of the record that Add stores: the text written to the backing file is the
  serialisation of the old records followed by a record with that title, reading that text
  gives these records back, and so does loading afterwards (from a file that can be read).
\<close>

theorem validate_title_accepts_exactly_nonempty:
  "(validate_title input = Accepted \<longleftrightarrow> input \<noteq> [])
   \<and> validate_title [] = Rejected ''Title is required''
   \<and> snd (ask_title inputs) = find (\<lambda>i. i \<noteq> []) inputs
   \<and> fst (ask_title inputs) = replicate (length (takeWhile (\<lambda>i. i = []) inputs)) ''Title is required''
   \<and> (find (\<lambda>i. i \<noteq> []) (title_inputs inp) = Some answer
        \<and> loadSnippets w = Inr (Records snippets) \<and> can_write (files w SNIPPET_FILE)
      \<longrightarrow> (\<exists>w' r. addSnippet inp w = Completed w'
            \<and> text_of (files w' SNIPPET_FILE) = Some (JSON_stringify (snippets_json (snippets @ [r])) @ [CHR 0x0A])
            \<and> title r = answer
            \<and> readJson (File True True (JSON_stringify (snippets_json (snippets @ [r])) @ [CHR 0x0A]))
                = Inr (Records (snippets @ [r]))
            \<and> loadSnippets w' =
                Inr (Records (if files w SNIPPET_FILE = Absent \<or> can_read (files w SNIPPET_FILE)
                              then snippets @ [r] else []))))"
proof (intro conjI impI)
  show "validate_title input = Accepted \<longleftrightarrow> input \<noteq> []"
    by (simp add: validate_title_def truthy_def)
  show "validate_title [] = Rejected ''Title is required''"
    by (simp add: validate_title_def truthy_def)
  show "snd (ask_title inputs) = find (\<lambda>i. i \<noteq> []) inputs" by (rule ask_title_find)
  show "fst (ask_title inputs) = replicate (length (takeWhile (\<lambda>i. i = []) inputs)) ''Title is required''"
    by (rule ask_title_messages)
next
  assume a: "find (\<lambda>i. i \<noteq> []) (title_inputs inp) = Some answer
        \<and> loadSnippets w = Inr (Records snippets) \<and> can_write (files w SNIPPET_FILE)"
  let ?r = "pushed snippets answer inp"
  let ?w = "w\<lparr>files := (files w)(SNIPPET_FILE := after_write (files w SNIPPET_FILE)
              (JSON_stringify (snippets_json (snippets @ [?r])) @ [CHR 0x0A]))\<rparr>"
  let ?w' = "log Green (''Snippet '' @ dq @ answer @ dq @ '' added!'') (log Green ''Snippets saved!'' ?w)"
  have 1: "addSnippet inp w = Completed ?w'"
    using a by (intro addSnippet_completes) (simp_all add: ask_title_find)
  have 2: "text_of (files ?w' SNIPPET_FILE) =
      Some (JSON_stringify (snippets_json (snippets @ [?r])) @ [CHR 0x0A])"
    by (simp add: log_simps text_of_after_write)
  have 3: "title ?r = answer" by (simp add: pushed_def)
  have 4: "readJson (File True True (JSON_stringify (snippets_json (snippets @ [?r])) @ [CHR 0x0A]))
      = Inr (Records (snippets @ [?r]))"
    by (rule readJson_written)
  have 5: "loadSnippets ?w' =
      Inr (Records (if files w SNIPPET_FILE = Absent \<or> can_read (files w SNIPPET_FILE)
                    then snippets @ [?r] else []))"
    by (simp only: loadSnippets_log loadSnippets_after_save)
  from 1 2 3 4 5
  show "\<exists>w' r. addSnippet inp w = Completed w'
            \<and> text_of (files w' SNIPPET_FILE) = Some (JSON_stringify (snippets_json (snippets @ [r])) @ [CHR 0x0A])
            \<and> title r = answer
            \<and> readJson (File True True (JSON_stringify (snippets_json (snippets @ [r])) @ [CHR 0x0A]))
                = Inr (Records (snippets @ [r]))
            \<and> loadSnippets w' =
                Inr (Records (if files w SNIPPET_FILE = Absent \<or> can_read (files w SNIPPET_FILE)
                              then snippets @ [r] else []))"
    by (intro exI[of _ ?w'] exI[of _ ?r] conjI)
qed

text \<open>An empty input, then three spaces, with no file yet: one message, and the record that
  is stored, and loaded afterwards, has the three spaces as its title.\<close>

theorem validate_title_whitespace_example:
  "validate_title ''   '' = Accepted
   \<and> ask_title ['''', ''   ''] = ([''Title is required''], Some ''   '')
   \<and> (\<exists>w' r. addSnippet (example_input ['''', ''   '']) fresh = Completed w'
        \<and> text_of (files w' SNIPPET_FILE) = Some (JSON_stringify (snippets_json [r]) @ [CHR 0x0A])
        \<and> title r = ''   ''
        \<and> readJson (File True True (JSON_stringify (snippets_json [r]) @ [CHR 0x0A])) = Inr (Records [r])
        \<and> loadSnippets w' = Inr (Records [r]))"
proof -
  have "can_write (files fresh SNIPPET_FILE)" "files fresh SNIPPET_FILE = Absent"
    by (simp_all add: fresh_def can_write_def)
  then show ?thesis
    using validate_title_accepts_exactly_nonempty[of "''   ''" "['''', ''   '']"
        "example_input ['''', ''   '']" "''   ''" fresh "[]"] loadSnippets_fresh
    by (simp add: example_input_def prod_eq_iff)
qed

section \<open>What List and Search print\<close>

lemma holding_simps:
  "console (holding ss) = []" "clipboard (holding ss) = None"
  "files (holding ss) EXPORT_JSON = Absent" "files (holding ss) EXPORT_MD = Absent"
  "files (holding ss) SNIPPET_FILE = File True True (JSON_stringify (snippets_json ss) @ [CHR 0x0A])"
  by (simp_all add: holding_def)

lemma print_listed_lines: "print_listed w s = w\<lparr>console := console w @ listed_lines s\<rparr>"
  by (simp add: print_listed_def listed_lines_def log_def)

lemma foldl_print_listed:
  "foldl print_listed w ss = w\<lparr>console := console w @ concat (map listed_lines ss)\<rparr>"
  by (induction ss arbitrary: w) (simp_all add: print_listed_lines)

lemma print_found_lines: "print_found w s = w\<lparr>console := console w @ found_lines s\<rparr>"
  by (simp add: print_found_def found_lines_def log_def or_None_def truthy_def)

lemma foldl_print_found:
  "foldl print_found w ss = w\<lparr>console := console w @ concat (map found_lines ss)\<rparr>"
  by (induction ss arbitrary: w) (simp_all add: print_found_lines)

section \<open>List\<close>

lemma list_filter_kept: "list_filter options snippets = list_kept options snippets"
  by (auto simp: list_filter_def list_kept_def ci_equal_def truthy_def Let_def
      split: option.splits intro: filter_cong)

text \<open>
  Claim C4, as the code has it. For every collection in the store and every pair of
  options, List keeps exactly the records that pass every filter in force, in the order of
  the collection, where a filter is in force when its option was supplied and is not the
  empty string, and a record passes when its language (its category) equals the option
  with case ignored. An empty result prints the not-found notice and nothing else; any
  other result prints the listing of the records kept.
\<close>

theorem listSnippets_keeps_matching:
  assumes "loadSnippets w = Inr (Records snippets)"
  shows "list_filter options snippets = list_kept options snippets
    \<and> listSnippets options w =
        Completed (w\<lparr>console := console w @
          (if list_kept options snippets = [] then [(Yellow, ''No snippets found.'')]
           else concat (map listed_lines (list_kept options snippets)))\<rparr>)"
  using assms
  by (simp add: listSnippets_def list_filter_kept foldl_print_listed log_def)

lemma toLowerCase_examples:
  "toLowerCase ''Python'' = ''python''" "toLowerCase ''python'' = ''python''"
  "toLowerCase ''javascript'' = ''javascript''" "toLowerCase ''GENERAL'' = ''general''"
  "toLowerCase ''General'' = ''general''" "toLowerCase ''React'' = ''react''"
  by (simp_all add: toLowerCase_def char_of_eq_iff)

theorem listSnippets_and_example:
  "list_filter \<lparr>opt_lang = Some ''Python'', opt_category = Some ''GENERAL''\<rparr>
     [example_snippet 1 ''a'' ''python'' ''General'', example_snippet 2 ''b'' ''javascript'' ''General'',
      example_snippet 3 ''c'' ''python'' ''React'', example_snippet 4 ''d'' ''javascript'' ''React'']
     = [example_snippet 1 ''a'' ''python'' ''General'']
   \<and> listSnippets \<lparr>opt_lang = Some ''Python'', opt_category = Some ''GENERAL''\<rparr>
       (holding [example_snippet 1 ''a'' ''python'' ''General'', example_snippet 2 ''b'' ''javascript'' ''General'',
          example_snippet 3 ''c'' ''python'' ''React'', example_snippet 4 ''d'' ''javascript'' ''React''])
     = Completed ((holding [example_snippet 1 ''a'' ''python'' ''General'', example_snippet 2 ''b'' ''javascript'' ''General'',
          example_snippet 3 ''c'' ''python'' ''React'', example_snippet 4 ''d'' ''javascript'' ''React''])
        \<lparr>console := listed_lines (example_snippet 1 ''a'' ''python'' ''General'')\<rparr>)
   \<and> listSnippets \<lparr>opt_lang = Some ''React'', opt_category = None\<rparr>
       (holding [example_snippet 1 ''a'' ''python'' ''General''])
     = Completed ((holding [example_snippet 1 ''a'' ''python'' ''General''])
        \<lparr>console := [(Yellow, ''No snippets found.'')]\<rparr>)"
proof -
  let ?ss = "[example_snippet 1 ''a'' ''python'' ''General'', example_snippet 2 ''b'' ''javascript'' ''General'',
      example_snippet 3 ''c'' ''python'' ''React'', example_snippet 4 ''d'' ''javascript'' ''React'']"
  have 1: "list_kept \<lparr>opt_lang = Some ''Python'', opt_category = Some ''GENERAL''\<rparr> ?ss
      = [example_snippet 1 ''a'' ''python'' ''General'']"
    by (simp add: list_kept_def ci_equal_def example_snippet_def toLowerCase_examples)
  have 2: "list_kept \<lparr>opt_lang = Some ''React'', opt_category = None\<rparr>
      [example_snippet 1 ''a'' ''python'' ''General''] = []"
    by (simp add: list_kept_def ci_equal_def example_snippet_def toLowerCase_examples)
  show ?thesis
    using listSnippets_keeps_matching[
        where options = "\<lparr>opt_lang = Some ''Python'', opt_category = Some ''GENERAL''\<rparr>",
        OF loadSnippets_holding[of ?ss]]
      listSnippets_keeps_matching[
        where options = "\<lparr>opt_lang = Some ''React'', opt_category = None\<rparr>",
        OF loadSnippets_holding[of "[example_snippet 1 ''a'' ''python'' ''General'']"]]
    by (simp add: 1 2 holding_simps)
qed

text \<open>
  The claim as the specification states it fails when an option is supplied as the empty
  string: the code skips that filter and lists every record, where the claim keeps only the
  records whose language is empty and prints the not-found notice.
\<close>

theorem listSnippets_empty_option_lists_all:
  "list_filter \<lparr>opt_lang = Some [], opt_category = None\<rparr> [example_snippet 1 ''a'' ''python'' ''General'']
     = [example_snippet 1 ''a'' ''python'' ''General'']
   \<and> list_as_claimed \<lparr>opt_lang = Some [], opt_category = None\<rparr> [example_snippet 1 ''a'' ''python'' ''General'']
     = []
   \<and> listSnippets \<lparr>opt_lang = Some [], opt_category = None\<rparr> (holding [example_snippet 1 ''a'' ''python'' ''General''])
     = Completed ((holding [example_snippet 1 ''a'' ''python'' ''General''])
        \<lparr>console := listed_lines (example_snippet 1 ''a'' ''python'' ''General'')\<rparr>)"
proof -
  have 1: "list_filter \<lparr>opt_lang = Some [], opt_category = None\<rparr> [example_snippet 1 ''a'' ''python'' ''General'']
     = [example_snippet 1 ''a'' ''python'' ''General'']"
    by (simp add: list_filter_def truthy_def)
  have 2: "list_as_claimed \<lparr>opt_lang = Some [], opt_category = None\<rparr> [example_snippet 1 ''a'' ''python'' ''General'']
     = []"
    by (simp add: list_as_claimed_def ci_equal_def example_snippet_def toLowerCase_def)
  have 3: "listSnippets \<lparr>opt_lang = Some [], opt_category = None\<rparr> (holding [example_snippet 1 ''a'' ''python'' ''General''])
     = Completed ((holding [example_snippet 1 ''a'' ''python'' ''General''])
        \<lparr>console := listed_lines (example_snippet 1 ''a'' ''python'' ''General'')\<rparr>)"
    by (simp add: listSnippets_def loadSnippets_holding 1 print_listed_lines holding_simps)
  from 1 2 3 show ?thesis by simp
qed

section \<open>The copy prompt of Search\<close>





lemma bit_length_example:
  "bit_length 9007199254740993 = 54" "bit_length 9007199254740992 = 54"
  by (simp_all add: bit_length.simps)

lemma parseInt_rounds:
  "parseInt ''9007199254740993'' = Finite 9007199254740992"
  "to_number 9007199254740992 = Finite 9007199254740992"
  by (simp_all add: parseInt_def js_whitespace_def is_digit_def digits_val_def digit_val_def
      to_number_def to_double_def bit_length_example Let_def)




section \<open>The ids of a collection\<close>

lemma ids_sequential_Nil: "ids_sequential []"
  by (simp add: ids_sequential_def)

lemma ids_sequential_pushed:
  "ids_sequential ss \<Longrightarrow> ids_sequential (ss @ [pushed ss answer inp])"
  by (simp add: ids_sequential_def pushed_def)

lemma ids_sequential_increasing: "ids_sequential ss \<Longrightarrow> ids_increasing ss"
proof -
  assume "ids_sequential ss"
  then have m: "map id' ss = map int [1 ..< length ss + 1]" by (simp add: ids_sequential_def)
  have "sorted_wrt (\<lambda>x y. int x < int y) [1 ..< length ss + 1]"
    by (simp only: of_nat_less_iff sorted_wrt_upt)
  then have "sorted_wrt (<) (map int [1 ..< length ss + 1])"
    by (simp only: sorted_wrt_map)
  moreover have "distinct (map int [1 ..< length ss + 1])"
    by (simp add: distinct_map)
  ultimately show ?thesis by (simp add: ids_increasing_def m)
qed

lemma searchSnippets_files:
  assumes "loadSnippets w = Inr (Records ss)"
  shows "\<exists>w'. searchSnippets fuse query copyId w = Completed w' \<and> files w' = files w"
  using assms
  by (simp add: searchSnippets_def foldl_print_found log_def Let_def split: option.splits)

lemma listSnippets_files:
  assumes "loadSnippets w = Inr (Records ss)"
  shows "\<exists>w'. listSnippets options w = Completed w' \<and> files w' = files w"
  using assms by (simp add: listSnippets_def foldl_print_listed log_def Let_def)

lemma exportSnippets_files:
  assumes "loadSnippets w = Inr (Records ss)"
  shows "\<exists>w'. world_after (exportSnippets format w) = Some w'
    \<and> files w' SNIPPET_FILE = files w SNIPPET_FILE"
  using assms
  by (simp add: exportSnippets_def writeJson_eq write_to_eq world_after_def log_def Let_def)

lemma addSnippet_keeps_sequential:
  assumes load: "loadSnippets w = Inr (Records ss)" and seq: "ids_sequential ss"
  shows "\<exists>w' ss'. world_after (addSnippet inp w) = Some w'
    \<and> loadSnippets w' = Inr (Records ss') \<and> ids_sequential ss'"
proof (cases "snd (ask_title (title_inputs inp))")
  case None
  then show ?thesis using load seq by (simp add: addSnippet_waits world_after_def)
next
  case (Some answer)
  show ?thesis
  proof (cases "can_write (files w SNIPPET_FILE)")
    case False
    then show ?thesis
      using load seq Some by (simp add: addSnippet_throws world_after_def)
  next
    case True
    let ?ss' = "if files w SNIPPET_FILE = Absent \<or> can_read (files w SNIPPET_FILE)
                then ss @ [pushed ss answer inp] else []"
    let ?w' = "log Green (''Snippet '' @ dq @ answer @ dq @ '' added!'')
        (log Green ''Snippets saved!''
          (w\<lparr>files := (files w)(SNIPPET_FILE := after_write (files w SNIPPET_FILE)
              (JSON_stringify (snippets_json (ss @ [pushed ss answer inp])) @ [CHR 0x0A]))\<rparr>))"
    have 1: "ids_sequential ?ss'"
      using seq by (simp add: ids_sequential_pushed ids_sequential_Nil)
    have 2: "world_after (addSnippet inp w) = Some ?w'"
      by (simp only: addSnippet_completes[OF load Some True] world_after_def outcome.case)
    have 3: "loadSnippets ?w' = Inr (Records ?ss')"
      by (simp only: loadSnippets_log loadSnippets_after_save)
    from 1 2 3 show ?thesis
      by (intro exI[of _ ?w'] exI[of _ ?ss'] conjI)
  qed
qed

lemma run_keeps_sequential:
  assumes load: "loadSnippets w = Inr (Records ss)" and seq: "ids_sequential ss"
  shows "\<exists>w' ss'. world_after (run fuse c w) = Some w'
    \<and> loadSnippets w' = Inr (Records ss') \<and> ids_sequential ss'"
proof (cases c)
  case (CmdAdd inp)
  then show ?thesis using addSnippet_keeps_sequential[OF load seq] by simp
next
  case (CmdSearch query copyId)
  obtain w' where "searchSnippets fuse query copyId w = Completed w'" "files w' = files w"
    using searchSnippets_files[OF load] by blast
  then show ?thesis
    using CmdSearch load seq loadSnippets_files[of w' w] by (auto simp: world_after_def)
next
  case (CmdList options)
  obtain w' where "listSnippets options w = Completed w'" "files w' = files w"
    using listSnippets_files[OF load] by blast
  then show ?thesis
    using CmdList load seq loadSnippets_files[of w' w] by (auto simp: world_after_def)
next
  case (CmdExport format)
  obtain w' where "world_after (exportSnippets format w) = Some w'"
    "files w' SNIPPET_FILE = files w SNIPPET_FILE"
    using exportSnippets_files[OF load] by blast
  then show ?thesis
    using CmdExport load seq loadSnippets_files[of w' w] by auto
qed

text \<open>
  Claim C7, as the code has it. From a store whose records carry the ids 1, 2, ..., N in
  this order (an absent or empty backing file is the case N = 0), every sequence of Add,
  Search, List and Export commands ends, and in the store it leaves the ids are again 1, 2,
  ..., N' in this order: pairwise distinct and strictly increasing in the order of insertion.
\<close>

theorem ids_stay_sequential:
  assumes "loadSnippets w = Inr (Records ss)" and "ids_sequential ss"
  shows "\<exists>w' ss'. run_all fuse cmds w = Some w'
    \<and> loadSnippets w' = Inr (Records ss') \<and> ids_sequential ss' \<and> ids_increasing ss'"
  using assms
proof (induction cmds arbitrary: w ss)
  case Nil
  then show ?case by (auto simp: ids_sequential_increasing)
next
  case (Cons c cmds)
  obtain w1 ss1 where 1: "world_after (run fuse c w) = Some w1"
    "loadSnippets w1 = Inr (Records ss1)" "ids_sequential ss1"
    using run_keeps_sequential[OF Cons.prems] by blast
  show ?case using Cons.IH[OF 1(2,3)] 1(1) by simp
qed

text \<open>Two records added to a store with no file, then an export that is refused: the ids
  are 1 and 2.\<close>

theorem ids_stay_sequential_example:
  "\<exists>w' ss'. run_all (\<lambda>ss q. ss)
       [CmdAdd (example_input [''Debounce'']), CmdAdd (example_input ['''', ''Throttle'']),
        CmdExport ''yaml''] fresh = Some w'
    \<and> loadSnippets w' = Inr (Records ss') \<and> map id' ss' = [1, 2]
    \<and> ids_sequential ss' \<and> ids_increasing ss'"
proof -
  let ?i1 = "example_input [''Debounce'']"
  let ?i2 = "example_input ['''', ''Throttle'']"
  let ?p1 = "pushed [] ''Debounce'' ?i1"
  let ?p2 = "pushed [?p1] ''Throttle'' ?i2"
  let ?cmds = "[CmdAdd ?i1, CmdAdd ?i2, CmdExport ''yaml'']"
  let ?fuse = "\<lambda>(ss :: snippet list) (q :: string). ss"
  define w1 where "w1 = log Green (''Snippet '' @ dq @ ''Debounce'' @ dq @ '' added!'')
        (log Green ''Snippets saved!''
          (fresh\<lparr>files := (files fresh)(SNIPPET_FILE := after_write (files fresh SNIPPET_FILE)
              (JSON_stringify (snippets_json ([] @ [?p1])) @ [CHR 0x0A]))\<rparr>))"
  define w2 where "w2 = log Green (''Snippet '' @ dq @ ''Throttle'' @ dq @ '' added!'')
        (log Green ''Snippets saved!''
          (w1\<lparr>files := (files w1)(SNIPPET_FILE := after_write (files w1 SNIPPET_FILE)
              (JSON_stringify (snippets_json ([?p1] @ [?p2])) @ [CHR 0x0A]))\<rparr>))"
  have ask1: "snd (ask_title (title_inputs ?i1)) = Some ''Debounce''"
    by (simp add: example_input_def validate_title_def truthy_def)
  have ask2: "snd (ask_title (title_inputs ?i2)) = Some ''Throttle''"
    by (simp add: example_input_def validate_title_def truthy_def)
  have f0: "files fresh SNIPPET_FILE = Absent" by (simp add: fresh_def)
  have wr0: "can_write (files fresh SNIPPET_FILE)" by (simp add: f0 can_write_def)
  have a1: "addSnippet ?i1 fresh = Completed w1"
    unfolding w1_def by (rule addSnippet_completes[OF loadSnippets_fresh ask1 wr0])
  have l1: "loadSnippets w1 = Inr (Records [?p1])"
    unfolding w1_def by (simp only: loadSnippets_log loadSnippets_after_save) (simp add: f0)
  have f1: "files w1 SNIPPET_FILE = File True True (JSON_stringify (snippets_json ([] @ [?p1])) @ [CHR 0x0A])"
    unfolding w1_def by (simp add: log_simps f0 after_write_def)
  have wr1: "can_write (files w1 SNIPPET_FILE)" by (simp add: f1 can_write_def)
  have a2: "addSnippet ?i2 w1 = Completed w2"
    unfolding w2_def by (rule addSnippet_completes[OF l1 ask2 wr1])
  have l2: "loadSnippets w2 = Inr (Records [?p1, ?p2])"
    unfolding w2_def
    by (simp only: loadSnippets_log loadSnippets_after_save) (simp add: f1 can_read_def)
  have a3: "exportSnippets ''yaml'' w2 =
      Completed (log Red (''Unsupported format. Use '' @ dq @ ''json'' @ dq @ '' or '' @ dq @
                        ''markdown'' @ dq @ ''.'') w2)"
    by (simp add: exportSnippets_def l2)
  have r: "run_all ?fuse ?cmds fresh =
      Some (log Red (''Unsupported format. Use '' @ dq @ ''json'' @ dq @ '' or '' @ dq @
                        ''markdown'' @ dq @ ''.'') w2)"
    by (simp add: a1 a2 a3 world_after_def)
  have ids: "map id' [?p1, ?p2] = [1, 2]" by (simp add: pushed_def)
  obtain w' ss' where t: "run_all ?fuse ?cmds fresh = Some w'"
    "loadSnippets w' = Inr (Records ss')" "ids_sequential ss'" "ids_increasing ss'"
    using ids_stay_sequential[OF loadSnippets_fresh ids_sequential_Nil,
        where fuse = ?fuse and cmds = ?cmds]
    by (elim exE conjE)
  from t(1,2) r l2 have "ss' = [?p1, ?p2]" by (simp add: loadSnippets_log)
  with t ids show ?thesis by (intro exI[of _ w'] exI[of _ ss']) simp
qed

text \<open>
  The claim as the specification states it fails for a backing file with other ids: in a
  store whose only record has id 5 the ids are distinct and increasing, and Add appends a
  record with id 2.
\<close>

theorem addSnippet_breaks_increasing_ids:
  "loadSnippets (holding [example_snippet 5 ''a'' ''python'' ''General'']) =
       Inr (Records [example_snippet 5 ''a'' ''python'' ''General''])
   \<and> ids_increasing [example_snippet 5 ''a'' ''python'' ''General'']
   \<and> map_option loadSnippets
        (world_after (addSnippet (example_input [''b'']) (holding [example_snippet 5 ''a'' ''python'' ''General''])))
       = Some (Inr (Records [example_snippet 5 ''a'' ''python'' ''General'',
                     pushed [example_snippet 5 ''a'' ''python'' ''General''] ''b'' (example_input [''b''])]))
   \<and> map id' [example_snippet 5 ''a'' ''python'' ''General'',
               pushed [example_snippet 5 ''a'' ''python'' ''General''] ''b'' (example_input [''b''])] = [5, 2]
   \<and> \<not> ids_increasing [example_snippet 5 ''a'' ''python'' ''General'',
                        pushed [example_snippet 5 ''a'' ''python'' ''General''] ''b'' (example_input [''b''])]"
proof -
  let ?s = "example_snippet 5 ''a'' ''python'' ''General''"
  let ?i = "example_input [''b'']"
  have ask: "snd (ask_title (title_inputs ?i)) = Some ''b''"
    by (simp add: example_input_def validate_title_def truthy_def)
  have wr: "can_write (files (holding [?s]) SNIPPET_FILE)"
    by (simp add: holding_simps can_write_def)
  have rd: "can_read (files (holding [?s]) SNIPPET_FILE)"
    by (simp add: holding_simps can_read_def)
  have 1: "map_option loadSnippets (world_after (addSnippet ?i (holding [?s])))
      = Some (Inr (Records [?s, pushed [?s] ''b'' ?i]))"
    using rd
    by (simp only: addSnippet_completes[OF loadSnippets_holding ask wr] world_after_def
        outcome.case option.map loadSnippets_log loadSnippets_after_save) simp
  have 2: "map id' [?s, pushed [?s] ''b'' ?i] = [5, 2]"
    by (simp add: example_snippet_def pushed_def)
  have 3: "\<not> ids_increasing [?s, pushed [?s] ''b'' ?i]"
    unfolding ids_increasing_def 2 by simp
  have 4: "ids_increasing [?s]" by (simp add: ids_increasing_def)
  from 1 2 3 4 loadSnippets_holding[of "[?s]"] show ?thesis by simp
qed

section \<open>Further properties of the commands\<close>

text \<open>
  When the search finds nothing, Search prints the not-found notice and returns: no record
  is listed, no prompt is asked (the answer plays no part), nothing is copied and no file
  changes.
\<close>

theorem searchSnippets_nothing_found:
  assumes "loadSnippets w = Inr (Records snippets)" and "fuse snippets query = []"
  shows "searchSnippets fuse query copyId w = Completed (w\<lparr>console := console w @ [(Yellow, ''No snippets found.'')]\<rparr>)"
  using assms by (simp add: searchSnippets_def log_def)

theorem searchSnippets_nothing_found_example:
  "searchSnippets (\<lambda>ss q. []) ''zzz'' ''1'' (holding [example_snippet 1 ''a'' ''python'' ''General''])
     = Completed ((holding [example_snippet 1 ''a'' ''python'' ''General''])\<lparr>console := [(Yellow, ''No snippets found.'')]\<rparr>)"
  using searchSnippets_nothing_found[where fuse = "\<lambda>ss q. []" and query = "''zzz''" and copyId = "''1''",
      OF loadSnippets_holding[of "[example_snippet 1 ''a'' ''python'' ''General'']"]]
  by (simp add: holding_simps)

text \<open>
  When the backing file cannot be written, Add throws the error of the write: the world is
  as before, and neither \<^verbatim>\<open>Snippets saved!\<close> nor the confirmation is printed.
\<close>

theorem addSnippet_write_failure_propagates:
  assumes "loadSnippets w = Inr (Records snippets)"
    and "snd (ask_title (title_inputs inp)) = Some answer"
    and "\<not> can_write (files w SNIPPET_FILE)"
  shows "addSnippet inp w = Threw EACCES w"
  using assms by (simp add: addSnippet_def saveSnippets_def writeJson_eq)

theorem addSnippet_write_failure_example:
  "addSnippet (example_input [''a''])
     (fresh\<lparr>files := (files fresh)(SNIPPET_FILE := File True False ''[]'')\<rparr>)
   = Threw EACCES (fresh\<lparr>files := (files fresh)(SNIPPET_FILE := File True False ''[]'')\<rparr>)"
proof -
  let ?w = "fresh\<lparr>files := (files fresh)(SNIPPET_FILE := File True False ''[]'')\<rparr>"
  have p: "JSON_parse ''[]'' = Some (JArr [], True)"
    by (simp add: JSON_parse_def parse_value.simps skip_ws_def json_ws_def)
  have l: "loadSnippets ?w = Inr (Records [])"
    by (simp add: loadSnippets_def readJson_def readFile_def p json_snippets_def)
  have a: "snd (ask_title (title_inputs (example_input [''a'']))) = Some ''a''"
    by (simp add: example_input_def validate_title_def truthy_def)
  have c: "\<not> can_write (files ?w SNIPPET_FILE)" by (simp add: can_write_def)
  show ?thesis by (rule addSnippet_write_failure_propagates[OF l a c])
qed

text \<open>
  The record that Add creates takes the language and the category from the prompts, with
  \<^verbatim>\<open>javascript\<close> and \<^verbatim>\<open>General\<close> in place of an empty input; its code and description are the
  inputs as typed, its tags the parsed tags input, its time of creation the current time.
\<close>

theorem pushed_fields:
  "language (pushed snippets answer inp) = (if language_input inp = [] then ''javascript'' else language_input inp)
   \<and> category (pushed snippets answer inp) = (if category_input inp = [] then ''General'' else category_input inp)
   \<and> code (pushed snippets answer inp) = code_input inp
   \<and> description (pushed snippets answer inp) = description_input inp
   \<and> tags (pushed snippets answer inp) = filter_tags (tags_input inp)
   \<and> createdAt (pushed snippets answer inp) = now inp"
  by (simp add: pushed_def with_default_def truthy_def)

text \<open>
  Search, List and Export never change the backing file: whatever world they leave, its
  backing file is the one they found.
\<close>

theorem only_add_writes_the_backing_file:
  "(case world_after (searchSnippets fuse query copyId w) of
      None \<Rightarrow> True | Some w' \<Rightarrow> files w' SNIPPET_FILE = files w SNIPPET_FILE)
   \<and> (case world_after (listSnippets options w) of
      None \<Rightarrow> True | Some w' \<Rightarrow> files w' SNIPPET_FILE = files w SNIPPET_FILE)
   \<and> (case world_after (exportSnippets format w) of
      None \<Rightarrow> True | Some w' \<Rightarrow> files w' SNIPPET_FILE = files w SNIPPET_FILE)"
proof -
  obtain v where v: "loadSnippets w = Inr v" using loadSnippets_returns by blast
  show ?thesis
  proof (cases v)
    case (Records ss)
    show ?thesis
      using v Records
      by (simp add: searchSnippets_def listSnippets_def exportSnippets_def world_after_def
          foldl_print_found foldl_print_listed log_def writeJson_eq write_to_eq Let_def
          split: option.splits)
  next
    case Unrepresented
    show ?thesis
      using v Unrepresented
      by (simp add: searchSnippets_def listSnippets_def exportSnippets_def world_after_def log_def)
  qed
qed

text \<open>
  Saving a collection and loading it again returns the records that were saved, in the
  same order, when the backing file can be written and read.
\<close>

theorem save_then_load:
  assumes "can_write (files w SNIPPET_FILE)"
    and "files w SNIPPET_FILE = Absent \<or> can_read (files w SNIPPET_FILE)"
  shows "\<exists>w'. saveSnippets snippets w = Inr w' \<and> loadSnippets w' = Inr (Records snippets)
     \<and> console w' = console w @ [(Green, ''Snippets saved!'')]"
  using assms
  by (simp add: saveSnippets_def writeJson_eq loadSnippets_log loadSnippets_after_save log_simps)

theorem save_then_load_example:
  "\<exists>w'. saveSnippets [example_snippet 3 ''a'' ''python'' ''General'', example_snippet 1 ''b'' ''go'' ''Misc''] fresh = Inr w'
     \<and> loadSnippets w' = Inr (Records [example_snippet 3 ''a'' ''python'' ''General'', example_snippet 1 ''b'' ''go'' ''Misc''])
     \<and> console w' = [(Green, ''Snippets saved!'')]"
  using save_then_load[of fresh "[example_snippet 3 ''a'' ''python'' ''General'', example_snippet 1 ''b'' ''go'' ''Misc'']"]
  by (simp add: fresh_def can_write_def)

end
